theory Spec2Isabelle
  imports Main
begin

section \<open>JavaScript values\<close>

text \<open>
  The values that \<open>JSON.parse\<close> produces. An object is its list of own properties in
  enumeration order (keys distinct), an array is the list of its elements. Numbers are
  modelled as integers; the serialisation of fractions and exponents is not modelled.
  Strings are lists of 8-bit characters. \<open>JNull\<close> also stands for \<open>undefined\<close>: the
  code only ever tests both for truthiness.
\<close>

datatype json =
    JNull
  | JBool bool
  | JNum int
  | JStr string
  | JArr "json list"
  | JObj "(string \<times> json) list"

datatype error = TypeError | URIError | Fault string

text \<open>Truthiness, as in \<open>if (v)\<close> and \<open>a && b\<close>.\<close>

fun truthy :: "json \<Rightarrow> bool" where
  "truthy JNull = False"
| "truthy (JBool b) = b"
| "truthy (JNum n) = (n \<noteq> 0)"
| "truthy (JStr s) = (s \<noteq> [])"
| "truthy (JArr xs) = True"
| "truthy (JObj kvs) = True"

text \<open>\<open>typeof v === "object"\<close> for a truthy \<open>v\<close>.\<close>

fun typeof_object :: "json \<Rightarrow> bool" where
  "typeof_object (JArr xs) = True"
| "typeof_object (JObj kvs) = True"
| "typeof_object v = False"

subsection \<open>Strings\<close>

text \<open>White space and line terminators of ECMAScript that fit in 8 bits:
  TAB, LF, VT, FF, CR, SP and NBSP. They are what \<open>trim\<close> removes and what \<open>\s\<close> matches.\<close>

definition js_space :: "char \<Rightarrow> bool" where
  "js_space c = (of_char c \<in> {9, 10, 11, 12, 13, 32, 160 :: nat})"

definition trim :: "string \<Rightarrow> string" where
  "trim s = rev (dropWhile js_space (rev (dropWhile js_space s)))"

text \<open>\<open>s.split(d)\<close> for a one-character separator.\<close>

fun split_on :: "char \<Rightarrow> string \<Rightarrow> string list" where
  "split_on d [] = [] # []"
| "split_on d (c # cs) =
     (if c = d then [] # split_on d cs
      else (case split_on d cs of
              [] \<Rightarrow> [c] # []
            | w # ws \<Rightarrow> (c # w) # ws))"

definition digit_char :: "nat \<Rightarrow> char" where
  "digit_char n = char_of (48 + n)"

fun show_nat :: "nat \<Rightarrow> string" where
  "show_nat n = (if n < 10 then [digit_char n] else show_nat (n div 10) @ [digit_char (n mod 10)])"

declare show_nat.simps [simp del]

definition show_int :: "int \<Rightarrow> string" where
  "show_int i = (if i < 0 then CHR ''-'' # show_nat (nat (- i)) else show_nat (nat i))"

fun strip_prefix :: "string \<Rightarrow> string \<Rightarrow> string option" where
  "strip_prefix [] s = Some s"
| "strip_prefix (p # ps) [] = None"
| "strip_prefix (p # ps) (c # cs) = (if p = c then strip_prefix ps cs else None)"

text \<open>\<open>s.match(re)\<close> for a regular expression without the \<open>g\<close> flag: the match at the
  leftmost position where the expression matches. \<open>m\<close> is the expression anchored at the
  start of its argument.\<close>

fun regex_search :: "(string \<Rightarrow> 'a option) \<Rightarrow> string \<Rightarrow> 'a option" where
  "regex_search m [] = m []"
| "regex_search m (c # cs) =
     (case m (c # cs) of
        Some r \<Rightarrow> Some r
      | None \<Rightarrow> regex_search m cs)"

subsection \<open>Property access\<close>

text \<open>
  The own property \<open>p\<close> of a value: a key of an object, a canonical index of an array.
  Names found only on the prototype chain (\<open>constructor\<close>, \<open>toString\<close>, \<open>length\<close>, ...)
  hold functions, prototype objects, numbers or \<open>null\<close>, never a string and never an
  object with own string properties, so a traversal through one of them ends like a
  traversal through a missing property: with a value that is not a string.
\<close>

definition array_index :: "json list \<Rightarrow> string \<Rightarrow> json option" where
  "array_index xs p =
     (case filter (\<lambda>i. show_nat i = p) [0 ..< length xs] of
        [] \<Rightarrow> None
      | i # _ \<Rightarrow> Some (xs ! i))"

fun own_prop :: "json \<Rightarrow> string \<Rightarrow> json option" where
  "own_prop (JObj kvs) p = map_of kvs p"
| "own_prop (JArr xs) p = array_index xs p"
| "own_prop v p = None"

text \<open>\<open>v.k\<close> read for its truthiness: a missing property is \<open>undefined\<close>.\<close>

definition member :: "json \<Rightarrow> string \<Rightarrow> json" where
  "member v k = (case own_prop v k of None \<Rightarrow> JNull | Some x \<Rightarrow> x)"

subsection \<open>\<open>JSON.stringify\<close>\<close>

definition hex_char :: "nat \<Rightarrow> char" where
  "hex_char n = (if n < 10 then char_of (48 + n) else char_of (87 + n))"

definition escape_char :: "char \<Rightarrow> string" where
  "escape_char c =
     (let n = (of_char c :: nat) in
      if n = 0x22 then [CHR 0x5C, CHR 0x22]
      else if n = 0x5C then [CHR 0x5C, CHR 0x5C]
      else if n = 8 then [CHR 0x5C, CHR ''b'']
      else if n = 12 then [CHR 0x5C, CHR ''f'']
      else if n = 10 then [CHR 0x5C, CHR ''n'']
      else if n = 13 then [CHR 0x5C, CHR ''r'']
      else if n = 9 then [CHR 0x5C, CHR ''t'']
      else if n < 0x20 then [CHR 0x5C, CHR ''u'', CHR ''0'', CHR ''0'', hex_char (n div 16), hex_char (n mod 16)]
      else [c])"

definition quote :: "string \<Rightarrow> string" where
  "quote s = CHR 0x22 # concat (map escape_char s) @ [CHR 0x22]"

fun join_comma :: "string list \<Rightarrow> string" where
  "join_comma [] = []"
| "join_comma [x] = x"
| "join_comma (x # y # ys) = x @ CHR '','' # join_comma (y # ys)"

primrec stringify :: "json \<Rightarrow> string" where
  "stringify JNull = ''null''"
| "stringify (JBool b) = (if b then ''true'' else ''false'')"
| "stringify (JNum n) = show_int n"
| "stringify (JStr s) = quote s"
| "stringify (JArr xs) = CHR ''['' # join_comma (map stringify xs) @ '']''"
| "stringify (JObj kvs) =
     CHR ''{'' # join_comma (map (\<lambda>(k, v). quote k @ CHR '':'' # v) (map (map_prod id stringify) kvs)) @ ''}''"

section \<open>The candidate extractor\<close>

text \<open>The expression \<open>/https?:\/\/[^\s'"]{6,}/\<close>, anchored. The optional \<open>s\<close> is tried
  first, as the greedy \<open>?\<close> does; the class is greedy and nothing follows it, so the match
  takes the whole run.\<close>

definition url_char :: "char \<Rightarrow> bool" where
  "url_char c = (\<not> js_space c \<and> c \<noteq> CHR 0x27 \<and> c \<noteq> CHR 0x22)"

definition url_tail :: "string \<Rightarrow> string \<Rightarrow> string option" where
  "url_tail scheme s =
     (case strip_prefix ''://'' s of
        None \<Rightarrow> None
      | Some r \<Rightarrow>
          (let run = takeWhile url_char r
           in if 6 \<le> length run then Some (scheme @ ''://'' @ run) else None))"

definition url_at :: "string \<Rightarrow> string option" where
  "url_at s =
     (case strip_prefix ''http'' s of
        None \<Rightarrow> None
      | Some r \<Rightarrow>
          (case (case strip_prefix ''s'' r of
                   None \<Rightarrow> None
                 | Some r' \<Rightarrow> url_tail ''https'' r') of
             Some m \<Rightarrow> Some m
           | None \<Rightarrow> url_tail ''http'' r))"

text \<open>The loop over \<open>preferredKey.split(".")\<close>; \<open>JNull\<close> once a part is missing.\<close>

fun traverse :: "json \<Rightarrow> string list \<Rightarrow> json" where
  "traverse cur [] = cur"
| "traverse cur (p # ps) =
     (if truthy cur \<and> typeof_object cur then
        (case own_prop cur p of
           Some v \<Rightarrow> traverse v ps
         | None \<Rightarrow> JNull)
      else JNull)"

text \<open>The loop over the six top-level field names.\<close>

fun scan_keys :: "json \<Rightarrow> string list \<Rightarrow> json option" where
  "scan_keys parsed [] = None"
| "scan_keys parsed (k # ks) =
     (case own_prop parsed k of
        None \<Rightarrow> scan_keys parsed ks
      | Some v \<Rightarrow>
          (if (case v of JStr s \<Rightarrow> trim s \<noteq> [] | _ \<Rightarrow> False) then Some v
           else if truthy v \<and> typeof_object v \<and> truthy (member v ''url'') then Some (member v ''url'')
           else scan_keys parsed ks))"

definition candidate_keys :: "string list" where
  "candidate_keys = [''bypassed'', ''result'', ''url'', ''data'', ''target'', ''redirect'']"

text \<open>The block \<open>if (preferredKey) { ... }\<close>: \<open>Inr (Some c)\<close> when it returns \<open>c\<close>, \<open>Inr None\<close>
  when it falls through, \<open>Inl TypeError\<close> when \<open>preferredKey\<close> is truthy and has no
  \<open>split\<close> method.\<close>

definition hint_lookup :: "json \<Rightarrow> json \<Rightarrow> error + json option" where
  "hint_lookup parsed preferredKey =
     (if truthy preferredKey then
        (case preferredKey of
           JStr k \<Rightarrow>
             (let cur = traverse parsed (split_on CHR ''.'' k)
              in if (case cur of JStr s \<Rightarrow> trim s \<noteq> [] | _ \<Rightarrow> False) then Inr (Some cur) else Inr None)
         | _ \<Rightarrow> Inl TypeError)
      else Inr None)"

definition text_candidate :: "string option \<Rightarrow> json" where
  "text_candidate text =
     (case text of
        None \<Rightarrow> JNull
      | Some t \<Rightarrow>
          (if t \<noteq> [] then
             (case regex_search url_at t of Some m \<Rightarrow> JStr m | None \<Rightarrow> JNull)
           else JNull))"

text \<open>\<open>extractCandidate(parsed, text, preferredKey)\<close>; the default \<open>"bypassed"\<close> of the
  third parameter is passed by the caller. \<open>text\<close> is a string or \<open>null\<close>.\<close>

definition extractCandidate :: "json \<Rightarrow> string option \<Rightarrow> json \<Rightarrow> error + json" where
  "extractCandidate parsed text preferredKey =
     (if truthy parsed \<and> typeof_object parsed then
        (case hint_lookup parsed preferredKey of
           Inl e \<Rightarrow> Inl e
         | Inr (Some c) \<Rightarrow> Inr c
         | Inr None \<Rightarrow>
             (case scan_keys parsed candidate_keys of
                Some c \<Rightarrow> Inr c
              | None \<Rightarrow>
                  (case regex_search url_at (stringify parsed) of
                     Some m \<Rightarrow> Inr (JStr m)
                   | None \<Rightarrow> Inr (text_candidate text))))
      else Inr (text_candidate text))"

section \<open>Resolution results\<close>

type_synonym link = string

text \<open>The object a strategy returns; a field that is absent is \<open>None\<close> (\<open>JNull\<close> for
  \<open>bypassed\<close>).\<close>

record result =
  bypassed :: json
  method_name :: "string option"
  raw :: "string option"
  error :: "string option"
  source :: "string option"
  fromCache :: "bool option"

definition empty_result :: result where
  "empty_result = \<lparr>bypassed = JNull, method_name = None, raw = None, error = None, source = None, fromCache = None\<rparr>"

text \<open>\<open>String(err)\<close>.\<close>

fun String_of :: "error \<Rightarrow> string" where
  "String_of TypeError = ''TypeError''"
| "String_of URIError = ''URIError''"
| "String_of (Fault m) = m"

definition failed :: "string \<Rightarrow> result" where
  "failed msg = empty_result\<lparr>error := Some msg\<rparr>"

section \<open>The semaphore and the Playwright fallback\<close>

text \<open>
  \<open>class Semaphore\<close>. A caller suspended in \<open>acquire\<close> is the \<open>resolve\<close> callback it pushed,
  named here by the caller's number. \<open>acquire\<close> has two parts: the part that runs when it is
  called, and the statement \<open>this.current++\<close> after the \<open>await\<close>, which runs when the
  event loop resumes the caller after \<open>release\<close> has called its callback.
\<close>

record semaphore =
  max_s :: int
  current :: int
  queue :: "nat list"

definition Semaphore :: "int \<Rightarrow> semaphore" where
  "Semaphore m = \<lparr>max_s = m, current = 0, queue = []\<rparr>"

text \<open>\<open>acquire\<close> up to its \<open>await\<close>: \<open>True\<close> when it returned at once.\<close>

definition acquire :: "nat \<Rightarrow> semaphore \<Rightarrow> bool \<times> semaphore" where
  "acquire c s =
     (if current s < max_s s then (True, s\<lparr>current := current s + 1\<rparr>)
      else (False, s\<lparr>queue := queue s @ [c]\<rparr>))"

text \<open>\<open>acquire\<close> after its \<open>await\<close>.\<close>

definition acquire_resumed :: "semaphore \<Rightarrow> semaphore" where
  "acquire_resumed s = s\<lparr>current := current s + 1\<rparr>"

text \<open>\<open>release\<close>: the caller whose callback it called, if any.\<close>

definition release :: "semaphore \<Rightarrow> nat option \<times> semaphore" where
  "release s =
     (let s' = s\<lparr>current := max 0 (current s - 1)\<rparr>
      in case queue s' of
           [] \<Rightarrow> (None, s')
         | c # q \<Rightarrow> (Some c, s'\<lparr>queue := q\<rparr>))"

text \<open>
  The callers of \<open>playwrightBypass\<close> around \<open>pwSem\<close>: \<open>resolved\<close> are the callers whose
  callback \<open>release\<close> has called and who have not run yet, \<open>active\<close> the callers between
  their \<open>await pwSem.acquire()\<close> and their \<open>pwSem.release()\<close>, that is, the render
  sessions that are open. An event is one run of the event loop: a call of \<open>acquire\<close>, the
  resumption of a resolved caller, or the \<open>finally\<close> of an active caller.
\<close>

record gate =
  pwSem :: semaphore
  resolved :: "nat list"
  active :: "nat list"

datatype gate_event = Acquire nat | Resumed nat | Release nat

definition gate_init :: "int \<Rightarrow> gate" where
  "gate_init n = \<lparr>pwSem = Semaphore n, resolved = [], active = []\<rparr>"

fun gate_step :: "gate \<Rightarrow> gate_event \<Rightarrow> gate" where
  "gate_step g (Acquire c) =
     (case acquire c (pwSem g) of
        (True, s) \<Rightarrow> g\<lparr>pwSem := s, active := active g @ [c]\<rparr>
      | (False, s) \<Rightarrow> g\<lparr>pwSem := s\<rparr>)"
| "gate_step g (Resumed c) =
     (if c \<in> set (resolved g)
      then g\<lparr>pwSem := acquire_resumed (pwSem g), resolved := removeAll c (resolved g), active := active g @ [c]\<rparr>
      else g)"
| "gate_step g (Release c) =
     (if c \<in> set (active g)
      then (case release (pwSem g) of
              (None, s) \<Rightarrow> g\<lparr>pwSem := s, active := removeAll c (active g)\<rparr>
            | (Some w, s) \<Rightarrow> g\<lparr>pwSem := s, active := removeAll c (active g), resolved := resolved g @ [w]\<rparr>)
      else g)"

text \<open>
  The browser as \<open>playwrightBypass\<close> sees it: whether \<open>playwrightBrowser\<close> is set, and how
  many browsing contexts and pages are open. What each call to the browser does is given
  from outside: \<open>None\<close> when the call resolves, \<open>Some e\<close> when it rejects with \<open>e\<close>.
\<close>

record browser =
  playwrightBrowser :: bool
  contexts :: nat
  pages :: nat

record pw_calls =
  launch :: "error option"
  newContext :: "error option"
  newPage :: "error option"
  goto :: "error option"
  waitForTimeout :: "error option"
  page_url :: string
  page_content :: "error + string"
  page_close :: "error option"
  context_close :: "error option"

text \<open>The inner \<open>try { ... } finally { page.close(); context.close() }\<close>, entered with the
  context and the page open. A rejection of \<open>goto\<close> or \<open>content\<close> is swallowed by \<open>.catch\<close>;
  an exception of the \<open>finally\<close> block replaces the outcome of the \<open>try\<close> block.\<close>

definition page_session :: "pw_calls \<Rightarrow> browser \<Rightarrow> (error + result) \<times> browser" where
  "page_session c b =
     (let body =
            (case waitForTimeout c of
               Some e \<Rightarrow> Inl e
             | None \<Rightarrow>
                 Inr (empty_result
                       \<lparr>bypassed := JStr (page_url c),
                        method_name := Some ''playwright'',
                        raw := Some (take 3000 (case page_content c of Inl e \<Rightarrow> [] | Inr html \<Rightarrow> html))\<rparr>))
      in case page_close c of
           Some e \<Rightarrow> (Inl e, b)
         | None \<Rightarrow>
             (let b1 = b\<lparr>pages := pages b - 1\<rparr>
              in case context_close c of
                   Some e \<Rightarrow> (Inl e, b1)
                 | None \<Rightarrow> (body, b1\<lparr>contexts := contexts b1 - 1\<rparr>)))"

text \<open>The outer \<open>try\<close> block.\<close>

definition render :: "pw_calls \<Rightarrow> browser \<Rightarrow> (error + result) \<times> browser" where
  "render c b =
     (case (if \<not> playwrightBrowser b
            then (case launch c of Some e \<Rightarrow> Inl e | None \<Rightarrow> Inr (b\<lparr>playwrightBrowser := True\<rparr>))
            else Inr b) of
        Inl e \<Rightarrow> (Inl e, b)
      | Inr b1 \<Rightarrow>
          (case newContext c of
             Some e \<Rightarrow> (Inl e, b1)
           | None \<Rightarrow>
               (let b2 = b1\<lparr>contexts := contexts b1 + 1\<rparr>
                in case newPage c of
                     Some e \<Rightarrow> (Inl e, b2)
                   | None \<Rightarrow> page_session c (b2\<lparr>pages := pages b2 + 1\<rparr>))))"

text \<open>\<open>playwrightBypass\<close> from the point where \<open>await pwSem.acquire()\<close> has returned: the outer
  \<open>try\<close>, its \<open>catch\<close>, and the \<open>finally\<close> that releases the permit.\<close>

definition playwrightBypass ::
  "link \<Rightarrow> pw_calls \<Rightarrow> browser \<times> semaphore \<Rightarrow> result \<times> browser \<times> semaphore" where
  "playwrightBypass link c w =
     (case render c (fst w) of
        (r, b) \<Rightarrow>
          ((case r of Inl e \<Rightarrow> failed (String_of e) | Inr pw \<Rightarrow> pw),
           b, snd (release (snd w))))"

section \<open>The strategies\<close>

text \<open>
  What the code takes from its platform and its configuration: the host name that
  \<open>new URL(s).hostname\<close> gives (\<open>None\<close> when the constructor throws),
  \<open>decodeURIComponent\<close> (\<open>Inl\<close> when it throws), \<open>JSON.parse\<close> (\<open>None\<close> when it throws),
  and the constant \<open>ENABLE_EXTERNAL_APIS\<close>.
\<close>

record env =
  URL_hostname :: "string \<Rightarrow> string option"
  decodeURIComponent :: "string \<Rightarrow> error + string"
  JSON_parse :: "string \<Rightarrow> json option"
  ENABLE_EXTERNAL_APIS :: bool

text \<open>\<open>toLowerCase\<close> on 8-bit characters.\<close>

definition lower_char :: "char \<Rightarrow> char" where
  "lower_char c =
     (let n = (of_char c :: nat)
      in if 65 \<le> n \<and> n \<le> 90 then char_of (n + 32)
         else if n = 215 then c
         else if 192 \<le> n \<and> n \<le> 222 then char_of (n + 32)
         else c)"

definition toLowerCase :: "string \<Rightarrow> string" where
  "toLowerCase s = map lower_char s"

definition hostnameOf :: "env \<Rightarrow> link \<Rightarrow> string option" where
  "hostnameOf env link =
     (case URL_hostname env link of
        Some h \<Rightarrow> Some (toLowerCase h)
      | None \<Rightarrow>
          (case URL_hostname env (''https://'' @ link) of
             Some h \<Rightarrow> Some (toLowerCase h)
           | None \<Rightarrow> None))"

text \<open>The three expressions of \<open>domainExtractor\<close>, all with the \<open>i\<close> flag: a literal,
  compared without regard to the case of ASCII letters, then the captured group, a greedy
  non-empty run of a character class with nothing after it.\<close>

definition fold_case :: "char \<Rightarrow> char" where
  "fold_case c = (let n = (of_char c :: nat) in if 65 \<le> n \<and> n \<le> 90 then char_of (n + 32) else c)"

fun strip_prefix_ci :: "string \<Rightarrow> string \<Rightarrow> string option" where
  "strip_prefix_ci [] s = Some s"
| "strip_prefix_ci (p # ps) [] = None"
| "strip_prefix_ci (p # ps) (c # cs) = (if fold_case p = fold_case c then strip_prefix_ci ps cs else None)"

definition capture_after :: "string \<Rightarrow> (char \<Rightarrow> bool) \<Rightarrow> string \<Rightarrow> string option" where
  "capture_after lit cls s =
     (case strip_prefix_ci lit s of
        None \<Rightarrow> None
      | Some r \<Rightarrow> (let g = takeWhile cls r in if g \<noteq> [] then Some g else None))"

definition alnum :: "char \<Rightarrow> bool" where
  "alnum c =
     (let n = (of_char c :: nat)
      in (48 \<le> n \<and> n \<le> 57) \<or> (65 \<le> n \<and> n \<le> 90) \<or> (97 \<le> n \<and> n \<le> 122))"

definition match_pastebin :: "link \<Rightarrow> string option" where
  "match_pastebin link = regex_search (capture_after ''pastebin.com/'' alnum) link"

definition match_rentry :: "link \<Rightarrow> string option" where
  "match_rentry link = regex_search (capture_after ''rentry.co/'' (\<lambda>c. alnum c \<or> c = CHR ''-'')) link"

definition match_URL_param :: "link \<Rightarrow> string option" where
  "match_URL_param link =
     regex_search
       (\<lambda>s. case s of
               [] \<Rightarrow> None
             | c # r \<Rightarrow>
                 (if c = CHR ''?'' \<or> c = CHR ''&'' then capture_after ''URL='' (\<lambda>c. c \<noteq> CHR ''&'') r
                  else None))
       link"

text \<open>\<open>s.includes(x)\<close>.\<close>

definition includes_str :: "string \<Rightarrow> string \<Rightarrow> bool" where
  "includes_str s x = (regex_search (strip_prefix x) s \<noteq> None)"

text \<open>\<open>domainExtractor\<close>: \<open>Inr None\<close> is \<open>null\<close>, \<open>Inl e\<close> a promise rejected with \<open>e\<close>.\<close>

definition domainExtractor :: "env \<Rightarrow> link \<Rightarrow> error + result option" where
  "domainExtractor env link =
     (case hostnameOf env link of
        None \<Rightarrow> Inr None
      | Some host \<Rightarrow>
          (case (if host = ''pastebin.com'' then match_pastebin link else None) of
             Some m \<Rightarrow>
               Inr (Some (empty_result\<lparr>bypassed := JStr (''https://pastebin.com/raw/'' @ m),
                                       method_name := Some ''pastebin-raw''\<rparr>))
           | None \<Rightarrow>
               (case (if host = ''rentry.co'' then match_rentry link else None) of
                  Some m \<Rightarrow>
                    Inr (Some (empty_result\<lparr>bypassed := JStr (''https://rentry.co/'' @ m @ ''/raw''),
                                            method_name := Some ''rentry-raw''\<rparr>))
                | None \<Rightarrow>
                    (case (if includes_str host ''deltaios-executor.com'' then match_URL_param link else None) of
                       Some m \<Rightarrow>
                         (case decodeURIComponent env m of
                            Inl e \<Rightarrow> Inl e
                          | Inr d \<Rightarrow>
                              Inr (Some (empty_result\<lparr>bypassed := JStr d, method_name := Some ''param-URL''\<rparr>)))
                     | None \<Rightarrow> Inr None))))"

text \<open>What \<open>fetchWithTimeout\<close> and \<open>res.text().catch(()=>"")\<close> gave \<open>tryFollowRedirect\<close>: a
  rejection, or \<open>res.url\<close> and the body.\<close>

datatype fetched = FetchFault error | Fetched string string

fun json_target :: "json \<Rightarrow> string list \<Rightarrow> json option" where
  "json_target j [] = None"
| "json_target j (k # ks) =
     (if truthy j \<and> typeof_object j \<and> (case own_prop j k of Some (JStr s) \<Rightarrow> True | _ \<Rightarrow> False)
      then own_prop j k
      else json_target j ks)"

definition redirect_keys :: "string list" where
  "redirect_keys = [''bypassed'', ''url'', ''target'', ''redirect'', ''result'', ''data'']"

definition tryFollowRedirect :: "env \<Rightarrow> link \<Rightarrow> fetched \<Rightarrow> result" where
  "tryFollowRedirect env link f =
     (case f of
        FetchFault e \<Rightarrow> failed (String_of e)
      | Fetched res_url text \<Rightarrow>
          (let final = (if res_url \<noteq> [] then res_url else link)
           in if final \<noteq> [] \<and> final \<noteq> link
              then empty_result\<lparr>bypassed := JStr final, method_name := Some ''redirect'', raw := Some (take 2000 text)\<rparr>
              else (case (case JSON_parse env text of
                            None \<Rightarrow> None
                          | Some j \<Rightarrow>
                              (case json_target j redirect_keys of
                                 None \<Rightarrow> None
                               | Some v \<Rightarrow>
                                   Some (empty_result\<lparr>bypassed := v, method_name := Some ''json-target'',
                                                      raw := Some (take 2000 (stringify j))\<rparr>))) of
                      Some r \<Rightarrow> r
                    | None \<Rightarrow> empty_result\<lparr>raw := Some (take 2000 text)\<rparr>)))"

text \<open>What \<open>callExternalApi\<close> gave: a rejection, or the body \<open>text\<close>; its \<open>parsed\<close> is
  \<open>JSON.parse(text)\<close>, \<open>null\<close> when that throws.\<close>

datatype api_outcome = ApiFault error | ApiResponse string

record options =
  json_result :: json

definition parsed_of :: "env \<Rightarrow> string \<Rightarrow> json" where
  "parsed_of env text = (case JSON_parse env text of None \<Rightarrow> JNull | Some j \<Rightarrow> j)"

text \<open>One \<open>try { ... } catch(e){}\<close> block of \<open>processLink\<close> around a remote resolver: the
  object \<open>out\<close> when a candidate was found, \<open>None\<close> when the block fell through or threw.\<close>

definition remote_candidate :: "env \<Rightarrow> options \<Rightarrow> string \<Rightarrow> api_outcome \<Rightarrow> result option" where
  "remote_candidate env opts name a =
     (case a of
        ApiFault e \<Rightarrow> None
      | ApiResponse text \<Rightarrow>
          (case extractCandidate (parsed_of env text) (Some text)
                  (if truthy (json_result opts) then json_result opts else JStr ''bypassed'') of
             Inl e \<Rightarrow> None
           | Inr candidate \<Rightarrow>
               (if truthy candidate
                then Some (empty_result\<lparr>bypassed := candidate, method_name := Some name, raw := Some (take 3000 text)\<rparr>)
                else None)))"

section \<open>The cache\<close>

text \<open>
  Modelled from the spec: the package \<open>lru-cache\<close>, which is not part of the repository. The
  spec describes a store from links to results with a fixed maximum entry count, least
  recently used eviction, and a fixed time to live counted from insertion, independent of
  access; entries past it are treated as absent. The entries are kept most recently used
  first, each with its insertion time; \<open>max\<close> and \<open>ttl\<close> are the constants of the source.
\<close>

type_synonym lru = "(link \<times> result \<times> nat) list"

text \<open>The options \<open>max: 5000\<close> and \<open>ttl: 1000 * 60 * 60\<close> (milliseconds) of the source.\<close>

definition ttl :: nat where
  "ttl = 1000 * 60 * 60"

definition max_entries :: nat where
  "max_entries = 5000"

text \<open>Modelled from the spec: the result stored for a link, if one is stored and its time to
  live, counted from its insertion, has not passed at time \<open>now\<close>.\<close>

definition cache_lookup :: "nat \<Rightarrow> link \<Rightarrow> lru \<Rightarrow> result option" where
  "cache_lookup now k c =
     (case map_of c k of
        None \<Rightarrow> None
      | Some (v, t) \<Rightarrow> if now \<le> t + ttl then Some v else None)"

text \<open>Modelled from the spec: \<open>cache.has\<close>; an entry past its time to live is absent.\<close>

definition cache_has :: "nat \<Rightarrow> link \<Rightarrow> lru \<Rightarrow> bool" where
  "cache_has now k c = (cache_lookup now k c \<noteq> None)"

text \<open>Modelled from the spec: \<open>cache.get\<close>. A hit makes the entry the most recently used
  and keeps its insertion time; an entry past its time to live is dropped.\<close>

definition cache_get :: "nat \<Rightarrow> link \<Rightarrow> lru \<Rightarrow> result option \<times> lru" where
  "cache_get now k c =
     (case map_of c k of
        None \<Rightarrow> (None, c)
      | Some (v, t) \<Rightarrow>
          (if now \<le> t + ttl then (Some v, (k, v, t) # filter (\<lambda>e. fst e \<noteq> k) c)
           else (None, filter (\<lambda>e. fst e \<noteq> k) c)))"

text \<open>Modelled from the spec: \<open>cache.set\<close>. The new entry replaces any entry of the link and
  is the most recently used; beyond \<open>max\<close> entries the least recently used are evicted.\<close>

definition cache_set :: "nat \<Rightarrow> link \<Rightarrow> result \<Rightarrow> lru \<Rightarrow> lru" where
  "cache_set now k v c = take max_entries ((k, v, now) # filter (\<lambda>e. fst e \<noteq> k) c)"

section \<open>The orchestrator\<close>

text \<open>
  \<open>processLink\<close> runs on the event loop: a call runs to its first \<open>await\<close>, and what follows
  an \<open>await\<close> runs when the awaited promise has settled. The promise of the inner
  \<open>async\<close> function is \<open>Pending\<close> at the \<open>await\<close> where the function waits, until it is
  fulfilled or rejected. \<open>AwaitExtractor\<close> holds what \<open>domainExtractor\<close>, which has no
  \<open>await\<close> of its own, has already computed.
\<close>

datatype strategy = Extractor | Redirect | Abysm | Trw | Render

datatype stage =
    AwaitExtractor "error + result option"
  | AwaitRedirect
  | AwaitAbysm
  | AwaitTrw
  | AwaitRender

datatype promise =
    Pending stage link options
  | Fulfilled result
  | Rejected error

text \<open>The module's state: \<open>cache\<close> and \<open>inProgress\<close>, the promises created so far (a
  promise is named by its position), and, for the claims that count invocations, the list
  of the strategy calls made so far.\<close>

record state =
  cache :: lru
  inProgress :: "link \<rightharpoonup> nat"
  promises :: "promise list"
  invoked :: "(link \<times> strategy) list"

definition init :: state where
  "init = \<lparr>cache = [], inProgress = Map.empty, promises = [], invoked = []\<rparr>"

text \<open>What a call of \<open>processLink\<close> hands to its caller: a result at once, or a promise of
  the list to wait for.\<close>

datatype returned = Now result | Later nat

text \<open>\<open>{...v}\<close> for the value of \<open>cache.get\<close>.\<close>

definition spread :: "result option \<Rightarrow> result" where
  "spread v = (case v of None \<Rightarrow> empty_result | Some r \<Rightarrow> r)"

text \<open>\<open>processLink\<close> from its call to its return. On a miss the inner function starts, calls
  \<open>domainExtractor\<close>, and stops at its first \<open>await\<close>; its promise is then registered.\<close>

definition processLink :: "env \<Rightarrow> nat \<Rightarrow> link \<Rightarrow> options \<Rightarrow> state \<Rightarrow> returned \<times> state" where
  "processLink env now link opts s =
     (if link = [] then (Now (failed ''missing link''), s)
      else if cache_has now link (cache s) then
        (case cache_get now link (cache s) of
           (v, c) \<Rightarrow> (Now ((spread v)\<lparr>fromCache := Some True\<rparr>), s\<lparr>cache := c\<rparr>))
      else
        (case inProgress s link of
           Some p \<Rightarrow> (Later p, s)
         | None \<Rightarrow>
             (let p = length (promises s)
              in (Later p,
                  s\<lparr>promises := promises s @ [Pending (AwaitExtractor (domainExtractor env link)) link opts],
                    invoked := invoked s @ [(link, Extractor)],
                    inProgress := (inProgress s)(link \<mapsto> p)\<rparr>))))"

text \<open>The end of the inner function: its promise settles, and the \<open>finally\<close> block deletes
  the registration.\<close>

definition settle :: "nat \<Rightarrow> link \<Rightarrow> promise \<Rightarrow> state \<Rightarrow> state" where
  "settle p link v s = s\<lparr>promises := (promises s)[p := v], inProgress := (inProgress s)(link := None)\<rparr>"

text \<open>\<open>cache.set(link, c); return r\<close>.\<close>

definition succeed :: "nat \<Rightarrow> nat \<Rightarrow> link \<Rightarrow> result \<Rightarrow> result \<Rightarrow> state \<Rightarrow> state" where
  "succeed now p link c r s = settle p link (Fulfilled r) (s\<lparr>cache := cache_set now link c (cache s)\<rparr>)"

text \<open>The call of the next strategy, up to the \<open>await\<close> on it.\<close>

definition start :: "strategy \<Rightarrow> stage \<Rightarrow> nat \<Rightarrow> link \<Rightarrow> options \<Rightarrow> state \<Rightarrow> state" where
  "start st stg p link opts s =
     s\<lparr>promises := (promises s)[p := Pending stg link opts], invoked := invoked s @ [(link, st)]\<rparr>"

text \<open>What the event loop delivers to a waiting function: the settled promise of
  \<open>domainExtractor\<close> (\<open>Tick\<close>), or what a strategy gave.\<close>

datatype completion = Tick | RedirectDone fetched | ApiDone api_outcome | RenderDone result

text \<open>The inner function from one \<open>await\<close> to the next, or to its end.\<close>

fun continue :: "env \<Rightarrow> nat \<Rightarrow> nat \<Rightarrow> link \<Rightarrow> options \<Rightarrow> stage \<Rightarrow> completion \<Rightarrow> state \<Rightarrow> state" where
  "continue env now p link opts (AwaitExtractor (Inl e)) Tick s = settle p link (Rejected e) s"
| "continue env now p link opts (AwaitExtractor (Inr ext)) Tick s =
     (case ext of
        None \<Rightarrow> start Redirect AwaitRedirect p link opts s
      | Some r \<Rightarrow>
          (if truthy (bypassed r) then succeed now p link r (r\<lparr>source := Some ''extractor''\<rparr>) s
           else start Redirect AwaitRedirect p link opts s))"
| "continue env now p link opts AwaitRedirect (RedirectDone f) s =
     (let red = tryFollowRedirect env link f
      in if truthy (bypassed red) then succeed now p link red (red\<lparr>source := Some ''redirect''\<rparr>) s
         else if ENABLE_EXTERNAL_APIS env then start Abysm AwaitAbysm p link opts s
         else start Render AwaitRender p link opts s)"
| "continue env now p link opts AwaitAbysm (ApiDone a) s =
     (case remote_candidate env opts ''abysm'' a of
        Some out \<Rightarrow> succeed now p link out out s
      | None \<Rightarrow> start Trw AwaitTrw p link opts s)"
| "continue env now p link opts AwaitTrw (ApiDone t) s =
     (case remote_candidate env opts ''trw'' t of
        Some out \<Rightarrow> succeed now p link out out s
      | None \<Rightarrow> start Render AwaitRender p link opts s)"
| "continue env now p link opts AwaitRender (RenderDone pw) s =
     (if truthy (bypassed pw) then succeed now p link pw pw s
      else settle p link (Fulfilled (failed ''Link not supported or API is down'')) s)"
| "continue env now p link opts stg ev s = s"

definition resume :: "env \<Rightarrow> nat \<Rightarrow> nat \<Rightarrow> completion \<Rightarrow> state \<Rightarrow> state" where
  "resume env now p ev s =
     (if p < length (promises s) then
        (case promises s ! p of
           Pending stg link opts \<Rightarrow> continue env now p link opts stg ev s
         | _ \<Rightarrow> s)
      else s)"

text \<open>The runs of the event loop: a call of \<open>processLink\<close> at time \<open>now\<close>, or the resumption
  of a waiting function. Any order of events is a schedule.\<close>

datatype event = Call nat link options | Resume nat nat completion

fun step :: "env \<Rightarrow> state \<Rightarrow> event \<Rightarrow> state" where
  "step env s (Call now link opts) = snd (processLink env now link opts s)"
| "step env s (Resume now p ev) = resume env now p ev s"

definition run :: "env \<Rightarrow> event list \<Rightarrow> state" where
  "run env evs = foldl (step env) init evs"

text \<open>One resolution carried to its end without other events in between: what each
  strategy gives, should it be asked, is \<open>outs\<close>.\<close>

record outcomes =
  redirect_gives :: fetched
  abysm_gives :: api_outcome
  trw_gives :: api_outcome
  render_gives :: result

fun completion_for :: "outcomes \<Rightarrow> stage \<Rightarrow> completion" where
  "completion_for outs (AwaitExtractor x) = Tick"
| "completion_for outs AwaitRedirect = RedirectDone (redirect_gives outs)"
| "completion_for outs AwaitAbysm = ApiDone (abysm_gives outs)"
| "completion_for outs AwaitTrw = ApiDone (trw_gives outs)"
| "completion_for outs AwaitRender = RenderDone (render_gives outs)"

fun drive :: "nat \<Rightarrow> env \<Rightarrow> nat \<Rightarrow> nat \<Rightarrow> outcomes \<Rightarrow> state \<Rightarrow> state" where
  "drive 0 env now p outs s = s"
| "drive (Suc n) env now p outs s =
     (if p < length (promises s) then
        (case promises s ! p of
           Pending stg link opts \<Rightarrow> drive n env now p outs (resume env now p (completion_for outs stg) s)
         | _ \<Rightarrow> s)
      else s)"

text \<open>What the caller of \<open>processLink\<close> holds in state \<open>s\<close>: \<open>None\<close> while its promise is
  pending.\<close>

fun outcome_of :: "state \<Rightarrow> returned \<Rightarrow> (error + result) option" where
  "outcome_of s (Now r) = Some (Inr r)"
| "outcome_of s (Later p) =
     (if p < length (promises s) then
        (case promises s ! p of
           Pending stg link opts \<Rightarrow> None
         | Fulfilled r \<Rightarrow> Some (Inr r)
         | Rejected e \<Rightarrow> Some (Inl e))
      else None)"

definition resolve ::
  "env \<Rightarrow> nat \<Rightarrow> link \<Rightarrow> options \<Rightarrow> outcomes \<Rightarrow> state \<Rightarrow> (error + result) option \<times> state" where
  "resolve env now link opts outs s =
     (case processLink env now link opts s of
        (Now r, s1) \<Rightarrow> (Some (Inr r), s1)
      | (Later p, s1) \<Rightarrow> (let s2 = drive 5 env now p outs s1 in (outcome_of s2 (Later p), s2)))"

section \<open>What the specification says of a resolution\<close>

text \<open>
  The vocabulary of the claims about the orchestrator, written from the specification and
  compared with \<open>resolve\<close> below: the strategies in their fixed order, what each of them
  gives for a link, which of them succeed, the strategies run up to and including the first
  that succeeds, and the result and the cache that follow. A strategy succeeds when the
  \<open>bypassed\<close> field of its result is truthy.
\<close>

definition chain :: "env \<Rightarrow> strategy list" where
  "chain env = [Extractor, Redirect] @ (if ENABLE_EXTERNAL_APIS env then [Abysm, Trw] else []) @ [Render]"

fun strategy_result :: "env \<Rightarrow> link \<Rightarrow> options \<Rightarrow> outcomes \<Rightarrow> strategy \<Rightarrow> result option" where
  "strategy_result env link opts outs Extractor =
     (case domainExtractor env link of Inr (Some r) \<Rightarrow> Some r | _ \<Rightarrow> None)"
| "strategy_result env link opts outs Redirect = Some (tryFollowRedirect env link (redirect_gives outs))"
| "strategy_result env link opts outs Abysm = remote_candidate env opts ''abysm'' (abysm_gives outs)"
| "strategy_result env link opts outs Trw = remote_candidate env opts ''trw'' (trw_gives outs)"
| "strategy_result env link opts outs Render = Some (render_gives outs)"

definition succeeds :: "env \<Rightarrow> link \<Rightarrow> options \<Rightarrow> outcomes \<Rightarrow> strategy \<Rightarrow> bool" where
  "succeeds env link opts outs st =
     (case strategy_result env link opts outs st of None \<Rightarrow> False | Some r \<Rightarrow> truthy (bypassed r))"

fun upto_first :: "('a \<Rightarrow> bool) \<Rightarrow> 'a list \<Rightarrow> 'a list" where
  "upto_first P [] = []"
| "upto_first P (x # xs) = (if P x then [x] else x # upto_first P xs)"

fun annotate :: "strategy \<Rightarrow> result \<Rightarrow> result" where
  "annotate Extractor r = r\<lparr>source := Some ''extractor''\<rparr>"
| "annotate Redirect r = r\<lparr>source := Some ''redirect''\<rparr>"
| "annotate st r = r"

definition exhausted :: result where
  "exhausted = failed ''Link not supported or API is down''"

definition chain_result :: "env \<Rightarrow> link \<Rightarrow> options \<Rightarrow> outcomes \<Rightarrow> result" where
  "chain_result env link opts outs =
     (case find (succeeds env link opts outs) (chain env) of
        None \<Rightarrow> exhausted
      | Some st \<Rightarrow> (case strategy_result env link opts outs st of None \<Rightarrow> exhausted | Some r \<Rightarrow> annotate st r))"

definition chain_cache :: "env \<Rightarrow> nat \<Rightarrow> link \<Rightarrow> options \<Rightarrow> outcomes \<Rightarrow> lru \<Rightarrow> lru" where
  "chain_cache env now link opts outs c =
     (case find (succeeds env link opts outs) (chain env) of
        None \<Rightarrow> c
      | Some st \<Rightarrow> (case strategy_result env link opts outs st of None \<Rightarrow> c | Some r \<Rightarrow> cache_set now link r c))"

section \<open>Invariants and intermediate states\<close>

text \<open>\<open>pending_for s p l\<close>: promise \<open>p\<close> is the pending resolution of link \<open>l\<close>. A state is
  \<open>consistent\<close> when \<open>inProgress\<close> holds exactly the pending resolutions. A promise is
  \<open>tracked\<close> for a link when it exists and, while pending, resolves that link.\<close>

definition pending_for :: "state \<Rightarrow> nat \<Rightarrow> link \<Rightarrow> bool" where
  "pending_for s p l = (p < length (promises s) \<and> (case promises s ! p of Pending stg l' opts \<Rightarrow> l' = l | _ \<Rightarrow> False))"

definition consistent :: "state \<Rightarrow> bool" where
  "consistent s = (\<forall>l p. (inProgress s l = Some p) = pending_for s p l)"

definition tracked :: "state \<Rightarrow> nat \<Rightarrow> link \<Rightarrow> bool" where
  "tracked s p l = (p < length (promises s) \<and> (case promises s ! p of Pending stg l' opts \<Rightarrow> l' = l | _ \<Rightarrow> True))"

text \<open>Every cached result has a truthy \<open>bypassed\<close> field.\<close>

definition cache_ok :: "lru \<Rightarrow> bool" where
  "cache_ok c = list_all (\<lambda>e. truthy (bypassed (fst (snd e)))) c"

text \<open>The state in which a resolution ends, from each \<open>await\<close> on.\<close>

definition from_render :: "nat \<Rightarrow> nat \<Rightarrow> link \<Rightarrow> outcomes \<Rightarrow> state \<Rightarrow> state" where
  "from_render now p link outs t =
     (if truthy (bypassed (render_gives outs))
      then succeed now p link (render_gives outs) (render_gives outs) t
      else settle p link (Fulfilled exhausted) t)"

definition from_trw :: "env \<Rightarrow> nat \<Rightarrow> nat \<Rightarrow> link \<Rightarrow> options \<Rightarrow> outcomes \<Rightarrow> state \<Rightarrow> state" where
  "from_trw env now p link opts outs t =
     (case remote_candidate env opts ''trw'' (trw_gives outs) of
        Some out \<Rightarrow> succeed now p link out out t
      | None \<Rightarrow> from_render now p link outs (start Render AwaitRender p link opts t))"

definition from_abysm :: "env \<Rightarrow> nat \<Rightarrow> nat \<Rightarrow> link \<Rightarrow> options \<Rightarrow> outcomes \<Rightarrow> state \<Rightarrow> state" where
  "from_abysm env now p link opts outs t =
     (case remote_candidate env opts ''abysm'' (abysm_gives outs) of
        Some out \<Rightarrow> succeed now p link out out t
      | None \<Rightarrow> from_trw env now p link opts outs (start Trw AwaitTrw p link opts t))"

definition from_redirect :: "env \<Rightarrow> nat \<Rightarrow> nat \<Rightarrow> link \<Rightarrow> options \<Rightarrow> outcomes \<Rightarrow> state \<Rightarrow> state" where
  "from_redirect env now p link opts outs t =
     (let red = tryFollowRedirect env link (redirect_gives outs)
      in if truthy (bypassed red) then succeed now p link red (red\<lparr>source := Some ''redirect''\<rparr>) t
         else if ENABLE_EXTERNAL_APIS env then from_abysm env now p link opts outs (start Abysm AwaitAbysm p link opts t)
         else from_render now p link outs (start Render AwaitRender p link opts t))"

definition from_extractor :: "env \<Rightarrow> nat \<Rightarrow> nat \<Rightarrow> link \<Rightarrow> options \<Rightarrow> outcomes \<Rightarrow> result option \<Rightarrow> state \<Rightarrow> state" where
  "from_extractor env now p link opts outs ext t =
     (case ext of
        None \<Rightarrow> from_redirect env now p link opts outs (start Redirect AwaitRedirect p link opts t)
      | Some r \<Rightarrow>
          (if truthy (bypassed r) then succeed now p link r (r\<lparr>source := Some ''extractor''\<rparr>) t
           else from_redirect env now p link opts outs (start Redirect AwaitRedirect p link opts t)))"

section \<open>Sample inputs\<close>

text \<open>
  Three links, and the platform at the inputs the examples below use: the host names of the
  three links, \<open>decodeURIComponent\<close>, which throws \<open>URIError\<close> on a lone \<open>%\<close>, and
  \<open>JSON.parse\<close> on the body \<open>{"url":""}\<close>. The remote resolvers are disabled, as by
  default. In \<open>sample_outs\<close> the request to the link is not redirected and answers with that
  body, and the browser gives nothing.
\<close>

definition pastebin_link :: link where "pastebin_link = ''https://pastebin.com/AbCd1234''"

definition delta_link :: link where "delta_link = ''https://deltaios-executor.com/?URL=%''"

definition short_link :: link where "short_link = ''https://short.example/abc''"

definition empty_url_body :: json where "empty_url_body = JObj [(''url'', JStr [])]"

definition sample_env :: env where
  "sample_env =
     \<lparr>URL_hostname = (\<lambda>s. if s = pastebin_link then Some ''pastebin.com''
                          else if s = delta_link then Some ''deltaios-executor.com''
                          else if s = short_link then Some ''short.example''
                          else None),
      decodeURIComponent = (\<lambda>s. if s = ''%'' then Inl URIError else Inr s),
      JSON_parse = (\<lambda>t. if t = stringify empty_url_body then Some empty_url_body else None),
      ENABLE_EXTERNAL_APIS = False\<rparr>"

definition no_options :: options where "no_options = \<lparr>json_result = JNull\<rparr>"

definition sample_outs :: outcomes where
  "sample_outs =
     \<lparr>redirect_gives = Fetched short_link (stringify empty_url_body),
      abysm_gives = ApiFault (Fault ''unreachable''),
      trw_gives = ApiFault (Fault ''unreachable''),
      render_gives = failed ''browser unavailable''\<rparr>"

section \<open>The candidate extractor: results\<close>

lemma split_on_not_Nil: "split_on d s \<noteq> []"
  by (induction s) (auto split: list.splits)

lemma traverse_string_object:
  assumes "traverse parsed (split_on d hint) = JStr u"
  shows "truthy parsed \<and> typeof_object parsed"
  using assms split_on_not_Nil [of d hint]
  by (cases "split_on d hint") (auto split: if_splits)

text \<open>With a string as \<open>preferredKey\<close> the function returns; nothing in it throws.\<close>

lemma extractCandidate_returns: "\<exists>c. extractCandidate parsed text (JStr hint) = Inr c"
  by (auto simp add: extractCandidate_def hint_lookup_def Let_def split: option.splits)

text \<open>
  C9. For the structure \<open>{bypassed: "http://a", url: "http://b"}\<close> and no hint path (the
  empty string, \<open>null\<close>, or the default \<open>"bypassed"\<close> of the parameter) the extractor
  returns \<open>"http://a"\<close>, whatever the text; and when the traversal of a hint path ends
  at the string \<open>"http://c"\<close>, the extractor returns \<open>"http://c"\<close>, whatever else the
  structure and the text hold.
\<close>

theorem extractCandidate_priority:
  "extractCandidate (JObj [(''bypassed'', JStr ''http://a''), (''url'', JStr ''http://b'')]) text (JStr []) = Inr (JStr ''http://a'')
   \<and> extractCandidate (JObj [(''bypassed'', JStr ''http://a''), (''url'', JStr ''http://b'')]) text JNull = Inr (JStr ''http://a'')
   \<and> extractCandidate (JObj [(''bypassed'', JStr ''http://a''), (''url'', JStr ''http://b'')]) text (JStr ''bypassed'') = Inr (JStr ''http://a'')
   \<and> (hint \<noteq> [] \<and> traverse parsed (split_on CHR ''.'' hint) = JStr ''http://c''
        \<longrightarrow> extractCandidate parsed text' (JStr hint) = Inr (JStr ''http://c''))"
proof -
  have t: "trim ''http://a'' \<noteq> []" "trim ''http://c'' \<noteq> []"
    by (simp_all add: trim_def js_space_def)
  show ?thesis
    using traverse_string_object [of parsed "CHR ''.''" hint "''http://c''"]
    by (auto simp: extractCandidate_def hint_lookup_def candidate_keys_def t)
qed

theorem extractCandidate_priority_witness:
  "''a.b'' \<noteq> []
   \<and> traverse (JObj [(''bypassed'', JStr ''http://zzzzzzz''), (''a'', JObj [(''b'', JStr ''http://c'')])])
        (split_on CHR ''.'' ''a.b'') = JStr ''http://c''
   \<and> extractCandidate (JObj [(''bypassed'', JStr ''http://zzzzzzz''), (''a'', JObj [(''b'', JStr ''http://c'')])])
        (Some ''http://yyyyyyy'') (JStr ''a.b'') = Inr (JStr ''http://c'')"
  using extractCandidate_priority [where hint = "''a.b''" and text' = "Some ''http://yyyyyyy''"
      and parsed = "JObj [(''bypassed'', JStr ''http://zzzzzzz''), (''a'', JObj [(''b'', JStr ''http://c'')])]"]
  by simp

text \<open>
  C10. The extractor is total and, for a string as hint path, never throws
  (\<open>extractCandidate_returns\<close>), but its result is not always a string or \<open>null\<close>: the
  branch \<open>if (v && typeof v === "object" && v.url) return v.url\<close> returns the \<open>url\<close>
  member without testing its type, unlike the two branches that test
  \<open>typeof ... === "string"\<close>. For \<open>{"data": {"url": 42}}\<close> the result is the number 42.
\<close>

theorem extractCandidate_returns_number:
  "extractCandidate (JObj [(''data'', JObj [(''url'', JNum 42)])]) (Some []) (JStr ''bypassed'') = Inr (JNum 42)"
  by (simp add: extractCandidate_def hint_lookup_def candidate_keys_def member_def)

section \<open>The semaphore and the Playwright fallback: results\<close>

text \<open>
  C2. The semaphore does not bound the open render sessions by its maximum, and does not
  serve callers in arrival order. \<open>release\<close> lowers \<open>current\<close> and calls the callback of
  the first waiting caller, but that caller raises \<open>current\<close> again only when it is
  resumed. A call of \<open>acquire\<close> that runs in between finds \<open>current < max\<close> and returns
  at once. With the default maximum 2: callers 0 and 1 hold the permits and caller 2
  waits; caller 0 releases; caller 3 calls \<open>acquire\<close> and passes; caller 2 is resumed.
  Then three sessions are open, \<open>current\<close> is 3, and caller 3 went ahead of caller 2.
\<close>

theorem semaphore_admits_three_of_two:
  "active (foldl gate_step (gate_init 2) [Acquire 0, Acquire 1, Acquire 2, Release 0, Acquire 3, Resumed 2]) = [1, 3, 2]
   \<and> current (pwSem (foldl gate_step (gate_init 2) [Acquire 0, Acquire 1, Acquire 2, Release 0, Acquire 3, Resumed 2])) = 3
   \<and> max_s (pwSem (foldl gate_step (gate_init 2) [Acquire 0, Acquire 1, Acquire 2, Release 0, Acquire 3, Resumed 2])) = 2
   \<and> active (foldl gate_step (gate_init 2) [Acquire 0, Acquire 1, Acquire 2, Release 0, Acquire 3]) = [1, 3]
   \<and> resolved (foldl gate_step (gate_init 2) [Acquire 0, Acquire 1, Acquire 2, Release 0, Acquire 3]) = [2]"
  by (simp add: gate_init_def Semaphore_def acquire_def release_def acquire_resumed_def)

text \<open>The permit is released on every path of \<open>playwrightBypass\<close>, and a session whose page
  and context were opened and whose two \<open>close\<close> calls resolve leaves no page and no
  context behind.\<close>

lemma playwrightBypass_releases: "snd (snd (playwrightBypass link c (b, s))) = snd (release s)"
  by (simp add: playwrightBypass_def split: prod.splits)

lemma page_session_closes:
  "page_close c = None \<Longrightarrow> context_close c = None \<Longrightarrow>
   snd (page_session c (b\<lparr>contexts := Suc n, pages := Suc m\<rparr>)) = b\<lparr>contexts := n, pages := m\<rparr>"
  by (simp add: page_session_def)

text \<open>
  C8. The permit is released on every path, but the page and the context are not closed on
  every path. The context and the page are created before the inner \<open>try\<close>, so when
  \<open>context.newPage()\<close> rejects, the \<open>finally\<close> block that closes them is never entered:
  the context stays open. (When \<open>page.close()\<close> rejects, \<open>context.close()\<close> is skipped as
  well.) Here the browser is launched, the context is created, and page creation fails.
\<close>

theorem playwrightBypass_leaves_context_open:
  "playwrightBypass link
     \<lparr>launch = None, newContext = None, newPage = Some (Fault ''page crashed''), goto = None,
      waitForTimeout = None, page_url = ''about:blank'', page_content = Inr [], page_close = None,
      context_close = None\<rparr>
     (\<lparr>playwrightBrowser = False, contexts = 0, pages = 0\<rparr>, \<lparr>max_s = 2, current = 1, queue = []\<rparr>)
   = (failed ''page crashed'',
      \<lparr>playwrightBrowser = True, contexts = 1, pages = 0\<rparr>,
      \<lparr>max_s = 2, current = 0, queue = []\<rparr>)"
  by (simp add: playwrightBypass_def render_def release_def)

section \<open>The in-flight table\<close>

lemma pending_for_unique: "pending_for s p l \<Longrightarrow> pending_for s p l' \<Longrightarrow> l = l'"
  by (simp add: pending_for_def split: promise.splits)

lemma pending_for_settle:
  assumes "p < length (promises s)" "\<And>stg' l' o'. v \<noteq> Pending stg' l' o'"
  shows "pending_for (settle p link v s) q l = (q \<noteq> p \<and> pending_for s q l)"
  using assms by (cases v) (auto simp: pending_for_def settle_def nth_list_update)

lemma consistent_settle:
  assumes c: "consistent s" and p: "pending_for s p link"
    and v: "\<And>stg' l' o'. v \<noteq> Pending stg' l' o'"
  shows "consistent (settle p link v s)"
  unfolding consistent_def
proof (intro allI)
  fix l q
  have plen: "p < length (promises s)" using p by (simp add: pending_for_def)
  have ip: "inProgress (settle p link v s) l = (if l = link then None else inProgress s l)"
    by (simp add: settle_def)
  show "(inProgress (settle p link v s) l = Some q) = pending_for (settle p link v s) q l"
  proof (cases "l = link")
    case True
    have "\<not> (q \<noteq> p \<and> pending_for s q link)"
    proof
      assume a: "q \<noteq> p \<and> pending_for s q link"
      then have "inProgress s link = Some q" using c by (simp add: consistent_def)
      moreover have "inProgress s link = Some p" using c p by (simp add: consistent_def)
      ultimately show False using a by simp
    qed
    then show ?thesis using True ip pending_for_settle [OF plen v] by simp
  next
    case False
    have "pending_for s q l \<Longrightarrow> q \<noteq> p"
      using pending_for_unique [of s p link l] p False by auto
    then show ?thesis using False ip pending_for_settle [OF plen v] c
      by (auto simp: consistent_def)
  qed
qed

lemma pending_for_cache [simp]: "pending_for (s\<lparr>cache := c\<rparr>) p l = pending_for s p l"
  by (simp add: pending_for_def)

lemma consistent_cache [simp]: "consistent (s\<lparr>cache := c\<rparr>) = consistent s"
  by (simp add: consistent_def)

lemma consistent_succeed:
  "consistent s \<Longrightarrow> pending_for s p link \<Longrightarrow> consistent (succeed now p link c r s)"
  unfolding succeed_def by (rule consistent_settle) simp_all

lemma pending_for_start:
  assumes "pending_for s p link"
  shows "pending_for (start st stg p link opts s) q l = pending_for s q l"
  using assms by (auto simp: pending_for_def start_def nth_list_update split: promise.splits)

lemma consistent_start:
  "consistent s \<Longrightarrow> pending_for s p link \<Longrightarrow> consistent (start st stg p link opts s)"
  by (simp add: consistent_def pending_for_start) (simp add: start_def)

lemma consistent_continue:
  assumes "consistent s" "pending_for s p link"
  shows "consistent (continue env now p link opts stg ev s)"
  using assms
  by (cases "(env, now, p, link, opts, stg, ev, s)" rule: continue.cases)
     (simp_all add: consistent_settle consistent_succeed consistent_start Let_def split: option.splits)

lemma consistent_resume: "consistent s \<Longrightarrow> consistent (resume env now p ev s)"
  by (auto simp: resume_def pending_for_def intro!: consistent_continue split: promise.splits)

lemma consistent_processLink:
  assumes c: "consistent s"
  shows "consistent (snd (processLink env now link opts s))"
proof (cases "link = [] \<or> cache_has now link (cache s) \<or> inProgress s link \<noteq> None")
  case True
  then show ?thesis using c
    by (auto simp: processLink_def split: prod.splits)
next
  case False
  then have s': "snd (processLink env now link opts s) =
      s\<lparr>promises := promises s @ [Pending (AwaitExtractor (domainExtractor env link)) link opts],
        invoked := invoked s @ [(link, Extractor)],
        inProgress := (inProgress s)(link \<mapsto> length (promises s))\<rparr>"
    by (simp add: processLink_def Let_def)
  have none: "\<And>q. \<not> pending_for s q link"
    using c False by (auto simp: consistent_def)
  have old: "\<And>q l. pending_for s q l \<Longrightarrow> q < length (promises s)"
    by (simp add: pending_for_def)
  show ?thesis unfolding s' consistent_def
  proof (intro allI)
    fix l q
    let ?s' = "s\<lparr>promises := promises s @ [Pending (AwaitExtractor (domainExtractor env link)) link opts],
        invoked := invoked s @ [(link, Extractor)],
        inProgress := (inProgress s)(link \<mapsto> length (promises s))\<rparr>"
    have pf: "pending_for ?s' q l = (if q = length (promises s) then l = link else pending_for s q l)"
      by (auto simp: pending_for_def nth_append)
    show "(inProgress ?s' l = Some q) = pending_for ?s' q l"
    proof (cases "l = link")
      case True
      then show ?thesis using pf none by auto
    next
      case False
      then show ?thesis using pf c old [of q l] by (auto simp: consistent_def)
    qed
  qed
qed

lemma consistent_step: "consistent s \<Longrightarrow> consistent (step env s ev)"
  by (cases ev) (simp_all add: consistent_processLink consistent_resume)

lemma consistent_foldl: "consistent s \<Longrightarrow> consistent (foldl (step env) s evs)"
  by (induction evs arbitrary: s) (simp_all add: consistent_step)

lemma consistent_init: "consistent init"
  by (simp add: consistent_def init_def pending_for_def)

lemma consistent_run: "consistent (run env evs)"
  by (simp add: run_def consistent_foldl consistent_init)

lemma tracked_settle:
  "tracked s p l \<Longrightarrow> pending_for s q l' \<Longrightarrow> (\<And>stg' l'' o'. v \<noteq> Pending stg' l'' o') \<Longrightarrow>
   tracked (settle q l' v s) p l"
  by (cases "p = q") (auto simp: tracked_def settle_def pending_for_def split: promise.splits)

lemma tracked_cache [simp]: "tracked (s\<lparr>cache := c\<rparr>) p l = tracked s p l"
  by (simp add: tracked_def)

lemma tracked_succeed: "tracked s p l \<Longrightarrow> pending_for s q l' \<Longrightarrow> tracked (succeed now q l' c r s) p l"
  by (simp add: succeed_def tracked_settle)

lemma tracked_start: "tracked s p l \<Longrightarrow> pending_for s q l' \<Longrightarrow> tracked (start st stg q l' opts s) p l"
  by (cases "p = q") (auto simp: tracked_def start_def pending_for_def split: promise.splits)

lemma tracked_continue:
  assumes "tracked s p l" "pending_for s q l'"
  shows "tracked (continue env now q l' opts stg ev s) p l"
  using assms
  by (cases "(env, now, q, l', opts, stg, ev, s)" rule: continue.cases)
     (simp_all add: tracked_settle tracked_succeed tracked_start Let_def split: option.splits)

lemma tracked_resume: "tracked s p l \<Longrightarrow> tracked (resume env now q ev s) p l"
  by (auto simp: resume_def pending_for_def intro!: tracked_continue split: promise.splits)

lemma tracked_processLink: "tracked s p l \<Longrightarrow> tracked (snd (processLink env now link opts s)) p l"
  by (auto simp: processLink_def tracked_def Let_def nth_append split: prod.splits option.splits)

lemma tracked_step: "tracked s p l \<Longrightarrow> tracked (step env s ev) p l"
  by (cases ev) (simp_all add: tracked_processLink tracked_resume)

lemma tracked_foldl: "tracked s p l \<Longrightarrow> tracked (foldl (step env) s evs) p l"
  by (induction evs arbitrary: s) (simp_all add: tracked_step)

lemma processLink_miss:
  assumes "link \<noteq> []" "\<not> cache_has now link (cache s)" "inProgress s link = None"
  shows "processLink env now link opts s =
     (Later (length (promises s)),
      s\<lparr>promises := promises s @ [Pending (AwaitExtractor (domainExtractor env link)) link opts],
        invoked := invoked s @ [(link, Extractor)],
        inProgress := (inProgress s)(link \<mapsto> length (promises s))\<rparr>)"
  using assms by (simp add: processLink_def Let_def)

lemma processLink_attach:
  assumes "link \<noteq> []" "\<not> cache_has now link (cache s)" "inProgress s link = Some p"
  shows "processLink env now link opts s = (Later p, s)"
  using assms by (simp add: processLink_def)

section \<open>One resolution from start to end\<close>

lemma remote_truthy: "remote_candidate env opts name a = Some out \<Longrightarrow> truthy (bypassed out)"
  by (auto simp: remote_candidate_def split: api_outcome.splits sum.splits if_splits)

lemma drive_done:
  "p < length (promises t) \<Longrightarrow> promises t ! p = Fulfilled r \<Longrightarrow> drive n env now p outs t = t"
  by (cases n) simp_all

lemma drive_rejected:
  "p < length (promises t) \<Longrightarrow> promises t ! p = Rejected e \<Longrightarrow> drive n env now p outs t = t"
  by (cases n) simp_all

lemma settle_at: "p < length (promises t) \<Longrightarrow> promises (settle p link v t) ! p = v"
  by (simp add: settle_def)

lemma settle_len: "length (promises (settle p link v t)) = length (promises t)"
  by (simp add: settle_def)

lemma succeed_at: "p < length (promises t) \<Longrightarrow> promises (succeed now p link c r t) ! p = Fulfilled r"
  by (simp add: succeed_def settle_def)

lemma succeed_len: "length (promises (succeed now p link c r t)) = length (promises t)"
  by (simp add: succeed_def settle_def)

lemma start_at: "p < length (promises t) \<Longrightarrow> promises (start st stg p link opts t) ! p = Pending stg link opts"
  by (simp add: start_def)

lemma start_len: "length (promises (start st stg p link opts t)) = length (promises t)"
  by (simp add: start_def)

lemma drive_step:
  "p < length (promises t) \<Longrightarrow> promises t ! p = Pending stg link opts \<Longrightarrow>
   drive (Suc n) env now p outs t = drive n env now p outs (resume env now p (completion_for outs stg) t)"
  by simp

lemma resume_pending:
  "p < length (promises t) \<Longrightarrow> promises t ! p = Pending stg link opts \<Longrightarrow>
   resume env now p ev t = continue env now p link opts stg ev t"
  by (simp add: resume_def)

lemmas drive_facts = drive_done drive_rejected settle_at settle_len succeed_at succeed_len start_at start_len

lemma drive_render:
  assumes "p < length (promises t)" "promises t ! p = Pending AwaitRender link opts" "1 \<le> n"
  shows "drive n env now p outs t = from_render now p link outs t"
proof -
  obtain m where n: "n = Suc m" using assms(3) by (cases n) auto
  show ?thesis unfolding n using assms(1)
    by (subst drive_step [OF assms(1,2)])
       (simp add: resume_pending [OF assms(1,2)] from_render_def exhausted_def drive_facts del: drive.simps)
qed

lemma drive_trw:
  assumes "p < length (promises t)" "promises t ! p = Pending AwaitTrw link opts" "2 \<le> n"
  shows "drive n env now p outs t = from_trw env now p link opts outs t"
proof -
  obtain m where n: "n = Suc m" and m: "1 \<le> m" using assms(3) by (cases n) auto
  show ?thesis unfolding n using assms(1) m
    by (subst drive_step [OF assms(1,2)])
       (simp add: resume_pending [OF assms(1,2)] from_trw_def drive_facts drive_render
             del: drive.simps split: option.splits)
qed

lemma drive_abysm:
  assumes "p < length (promises t)" "promises t ! p = Pending AwaitAbysm link opts" "3 \<le> n"
  shows "drive n env now p outs t = from_abysm env now p link opts outs t"
proof -
  obtain m where n: "n = Suc m" and m: "2 \<le> m" using assms(3) by (cases n) auto
  show ?thesis unfolding n using assms(1) m
    by (subst drive_step [OF assms(1,2)])
       (simp add: resume_pending [OF assms(1,2)] from_abysm_def drive_facts drive_trw
             del: drive.simps split: option.splits)
qed

lemma drive_redirect:
  assumes "p < length (promises t)" "promises t ! p = Pending AwaitRedirect link opts" "4 \<le> n"
  shows "drive n env now p outs t = from_redirect env now p link opts outs t"
proof -
  obtain m where n: "n = Suc m" and m: "3 \<le> m" using assms(3) by (cases n) auto
  show ?thesis unfolding n using assms(1) m
    by (subst drive_step [OF assms(1,2)])
       (simp add: resume_pending [OF assms(1,2)] from_redirect_def Let_def drive_facts drive_abysm drive_render
             del: drive.simps)
qed

lemma drive_extractor:
  assumes "p < length (promises t)" "promises t ! p = Pending (AwaitExtractor (Inr ext)) link opts" "5 \<le> n"
  shows "drive n env now p outs t = from_extractor env now p link opts outs ext t"
proof -
  obtain m where n: "n = Suc m" and m: "4 \<le> m" using assms(3) by (cases n) auto
  show ?thesis unfolding n using assms(1) m
    by (subst drive_step [OF assms(1,2)])
       (simp add: resume_pending [OF assms(1,2)] from_extractor_def drive_facts drive_redirect
             del: drive.simps split: option.splits)
qed

lemma drive_extractor_fault:
  assumes "p < length (promises t)" "promises t ! p = Pending (AwaitExtractor (Inl e)) link opts" "1 \<le> n"
  shows "drive n env now p outs t = settle p link (Rejected e) t"
proof -
  obtain m where n: "n = Suc m" using assms(3) by (cases n) auto
  show ?thesis unfolding n using assms(1)
    by (subst drive_step [OF assms(1,2)])
       (simp add: resume_pending [OF assms(1,2)] drive_facts del: drive.simps)
qed

lemma resolve_miss:
  assumes "link \<noteq> []" "\<not> cache_has now link (cache s)" "inProgress s link = None"
    and "domainExtractor env link = Inr ext"
  shows "resolve env now link opts outs s =
     (let p = length (promises s);
          s2 = from_extractor env now p link opts outs ext
                 (s\<lparr>promises := promises s @ [Pending (AwaitExtractor (Inr ext)) link opts],
                    invoked := invoked s @ [(link, Extractor)],
                    inProgress := (inProgress s)(link \<mapsto> p)\<rparr>)
      in (outcome_of s2 (Later p), s2))"
  using assms by (simp add: resolve_def processLink_def Let_def drive_extractor del: outcome_of.simps)

lemma upd_none: "m k = None \<Longrightarrow> (m(k \<mapsto> v))(k := None) = m"
  by (rule ext) simp

text \<open>A resolution that starts (the link is not cached and not in flight) and whose pattern
  extractor does not throw ends fulfilled, with the result, the cache and the strategy calls
  that the specification's chain gives.\<close>

lemma resolve_chain:
  assumes "link \<noteq> []" "\<not> cache_has now link (cache s)" "inProgress s link = None"
    and "domainExtractor env link = Inr ext"
  shows "resolve env now link opts outs s =
     (Some (Inr (chain_result env link opts outs)),
      s\<lparr>cache := chain_cache env now link opts outs (cache s),
        promises := promises s @ [Fulfilled (chain_result env link opts outs)],
        invoked := invoked s @ map (Pair link) (upto_first (succeeds env link opts outs) (chain env))\<rparr>)"
  unfolding resolve_miss [OF assms]
  using assms(3,4)
  by (auto simp: Let_def from_extractor_def from_redirect_def from_abysm_def from_trw_def from_render_def
        succeed_def settle_def start_def chain_result_def chain_cache_def succeeds_def chain_def exhausted_def
        upd_none remote_truthy fun_upd_idem
        split: option.splits)

lemma resolve_fault:
  assumes "link \<noteq> []" "\<not> cache_has now link (cache s)" "inProgress s link = None"
    and "domainExtractor env link = Inl e"
  shows "resolve env now link opts outs s =
     (Some (Inl e),
      s\<lparr>promises := promises s @ [Rejected e], invoked := invoked s @ [(link, Extractor)]\<rparr>)"
  using assms
  by (simp add: resolve_def processLink_def Let_def settle_def upd_none fun_upd_idem
        drive_extractor_fault [where link = link and opts = opts and e = e])

section \<open>The cache\<close>

lemma cache_ok_set: "cache_ok c \<Longrightarrow> truthy (bypassed v) \<Longrightarrow> cache_ok (cache_set now k v c)"
  by (auto simp: cache_ok_def cache_set_def list_all_iff dest!: in_set_takeD)

lemma cache_ok_get:
  assumes ok: "cache_ok c"
  shows "cache_ok (snd (cache_get now k c))"
proof (cases "map_of c k")
  case None
  then show ?thesis using ok by (simp add: cache_get_def)
next
  case (Some vt)
  obtain v t where vt: "vt = (v, t)" by (cases vt)
  have "(k, v, t) \<in> set c" using Some vt by (auto dest: map_of_SomeD)
  then have "truthy (bypassed v)" using ok by (auto simp: cache_ok_def list_all_iff)
  then show ?thesis using ok Some vt
    by (auto simp: cache_ok_def cache_get_def list_all_iff)
qed

lemma cache_settle [simp]: "cache (settle p link v s) = cache s"
  by (simp add: settle_def)

lemma cache_start [simp]: "cache (start st stg p link opts s) = cache s"
  by (simp add: start_def)

lemma cache_ok_continue:
  "cache_ok (cache s) \<Longrightarrow> cache_ok (cache (continue env now p link opts stg ev s))"
  by (cases "(env, now, p, link, opts, stg, ev, s)" rule: continue.cases)
     (auto simp: succeed_def Let_def cache_ok_set remote_truthy split: option.splits)

lemma cache_ok_resume: "cache_ok (cache s) \<Longrightarrow> cache_ok (cache (resume env now p ev s))"
  by (auto simp: resume_def cache_ok_continue split: promise.splits)

lemma cache_ok_processLink: "cache_ok (cache s) \<Longrightarrow> cache_ok (cache (snd (processLink env now link opts s)))"
  using cache_ok_get [of "cache s" now link]
  by (auto simp: processLink_def Let_def split: prod.splits option.splits)

lemma cache_ok_step: "cache_ok (cache s) \<Longrightarrow> cache_ok (cache (step env s ev))"
  by (cases ev) (simp_all add: cache_ok_processLink cache_ok_resume)

lemma cache_ok_foldl: "cache_ok (cache s) \<Longrightarrow> cache_ok (cache (foldl (step env) s evs))"
  by (induction evs arbitrary: s) (simp_all add: cache_ok_step)

lemma cache_ok_run: "cache_ok (cache (run env evs))"
  unfolding run_def by (rule cache_ok_foldl) (simp add: init_def cache_ok_def)

lemma cache_has_later: "\<not> cache_has now k c \<Longrightarrow> now \<le> now' \<Longrightarrow> \<not> cache_has now' k c"
  by (auto simp: cache_has_def cache_lookup_def split: option.splits)

lemma filter_take_filter: "filter P (take n (filter P xs)) = take n (filter P xs)"
  by (rule filter_True) (auto dest: in_set_takeD)

lemma cache_get_front:
  assumes "cache_has now' k (cache_set now k v c)"
  shows "cache_get now' k (cache_set now k v c) = (Some v, cache_set now k v c)"
proof -
  have m: "max_entries = Suc (max_entries - 1)" by (simp add: max_entries_def)
  have c: "cache_set now k v c = (k, v, now) # take (max_entries - 1) (filter (\<lambda>e. fst e \<noteq> k) c)"
    unfolding cache_set_def by (subst m) simp
  show ?thesis using assms unfolding c
    by (simp add: cache_get_def cache_has_def cache_lookup_def filter_take_filter split: if_splits)
qed

lemma find_succeeds:
  assumes "find (succeeds env link opts outs) (chain env) = Some st"
  obtains r where "strategy_result env link opts outs st = Some r" "truthy (bypassed r)"
proof -
  have "succeeds env link opts outs st" using assms by (auto simp: find_Some_iff)
  then show ?thesis using that by (auto simp: succeeds_def split: option.splits)
qed

section \<open>The sample inputs evaluated\<close>

lemmas sample_defs = pastebin_link_def delta_link_def short_link_def empty_url_body_def sample_env_def
  no_options_def sample_outs_def

lemma dx_pastebin: "domainExtractor sample_env pastebin_link =
   Inr (Some (empty_result\<lparr>bypassed := JStr ''https://pastebin.com/raw/AbCd1234'', method_name := Some ''pastebin-raw''\<rparr>))"
  by (simp add: sample_defs domainExtractor_def hostnameOf_def toLowerCase_def lower_char_def
       match_pastebin_def capture_after_def fold_case_def alnum_def)

lemma dx_delta: "domainExtractor sample_env delta_link = Inl URIError"
  by (simp add: sample_defs domainExtractor_def hostnameOf_def toLowerCase_def lower_char_def
       match_pastebin_def match_rentry_def match_URL_param_def includes_str_def capture_after_def fold_case_def alnum_def)

lemma dx_short: "domainExtractor sample_env short_link = Inr None"
  by (simp add: sample_defs domainExtractor_def hostnameOf_def toLowerCase_def lower_char_def
       match_pastebin_def match_rentry_def match_URL_param_def includes_str_def capture_after_def fold_case_def alnum_def)

lemma init_miss: "\<not> cache_has now k (cache init)" "inProgress init k = None"
  by (simp_all add: init_def cache_has_def cache_lookup_def)

lemma red_sample: "tryFollowRedirect sample_env short_link (redirect_gives sample_outs) =
      empty_result\<lparr>bypassed := JStr [], method_name := Some ''json-target'', raw := Some (take 2000 (stringify empty_url_body))\<rparr>"
    by (simp add: tryFollowRedirect_def sample_env_def sample_outs_def redirect_keys_def)
       (simp add: empty_url_body_def short_link_def)

lemma sample_exhausts: "find (succeeds sample_env short_link no_options sample_outs) (chain sample_env) = None"
  by (simp add: chain_def succeeds_def dx_short red_sample)
     (simp add: sample_env_def sample_outs_def failed_def empty_result_def)

section \<open>The claims about the orchestrator\<close>

text \<open>
  C1. Take any schedule \<open>evs\<close> after which a link is neither cached nor in flight, a call
  of \<open>processLink\<close> for it, which starts a resolution, and any further events \<open>evs'\<close>.
  If the first caller's promise is still pending after them and the link is still not
  cached, a second call for the link returns the first caller's promise and leaves the
  state as it is: it starts no resolution and invokes no strategy, so the chain runs
  once for the link, and both callers wait for the same promise, hence get the same
  result.
\<close>

theorem concurrent_call_attaches:
  assumes "link \<noteq> []"
    and "\<not> cache_has now link (cache (run env evs))"
    and "inProgress (run env evs) link = None"
    and "\<not> cache_has now' link (cache (foldl (step env) (run env evs) (Call now link opts # evs')))"
    and "outcome_of (foldl (step env) (run env evs) (Call now link opts # evs'))
           (fst (processLink env now link opts (run env evs))) = None"
  shows "processLink env now' link opts' (foldl (step env) (run env evs) (Call now link opts # evs'))
       = (fst (processLink env now link opts (run env evs)),
          foldl (step env) (run env evs) (Call now link opts # evs'))"
proof -
  let ?a = "run env evs"
  let ?p = "length (promises ?a)"
  let ?b = "foldl (step env) ?a (Call now link opts # evs')"
  have first: "processLink env now link opts ?a =
     (Later ?p,
      ?a\<lparr>promises := promises ?a @ [Pending (AwaitExtractor (domainExtractor env link)) link opts],
        invoked := invoked ?a @ [(link, Extractor)],
        inProgress := (inProgress ?a)(link \<mapsto> ?p)\<rparr>)"
    using assms(1-3) by (rule processLink_miss)
  have "tracked (snd (processLink env now link opts ?a)) ?p link"
    unfolding first by (simp add: tracked_def)
  then have tr: "tracked ?b ?p link"
    by (simp add: tracked_foldl)
  have "outcome_of ?b (Later ?p) = None"
    using assms(5) first by simp
  with tr have pend: "pending_for ?b ?p link"
    by (auto simp: tracked_def pending_for_def split: promise.splits)
  have "consistent ?b"
    by (rule consistent_foldl [OF consistent_run])
  with pend have "inProgress ?b link = Some ?p"
    by (simp add: consistent_def)
  then have "processLink env now' link opts' ?b = (Later ?p, ?b)"
    using assms(1,4) by (intro processLink_attach)
  then show ?thesis using first by simp
qed

theorem concurrent_call_attaches_witness:
  "short_link \<noteq> []
   \<and> \<not> cache_has 0 short_link (cache (run sample_env []))
   \<and> inProgress (run sample_env []) short_link = None
   \<and> \<not> cache_has 1 short_link
        (cache (foldl (step sample_env) (run sample_env []) [Call 0 short_link no_options, Resume 0 0 Tick]))
   \<and> outcome_of (foldl (step sample_env) (run sample_env []) [Call 0 short_link no_options, Resume 0 0 Tick])
        (fst (processLink sample_env 0 short_link no_options (run sample_env []))) = None
   \<and> processLink sample_env 1 short_link no_options
        (foldl (step sample_env) (run sample_env []) [Call 0 short_link no_options, Resume 0 0 Tick])
      = (Later 0, foldl (step sample_env) (run sample_env []) [Call 0 short_link no_options, Resume 0 0 Tick])"
proof -
  have h: "short_link \<noteq> []" by (simp add: short_link_def)
  have r: "run sample_env [] = init" by (simp add: run_def)
  have s1: "processLink sample_env 0 short_link no_options init =
     (Later 0,
      init\<lparr>promises := [Pending (AwaitExtractor (Inr None)) short_link no_options],
        invoked := [(short_link, Extractor)],
        inProgress := (inProgress init)(short_link \<mapsto> 0)\<rparr>)"
    using processLink_miss [OF h init_miss, where now = 0 and env = sample_env and opts = no_options]
    by (simp add: dx_short init_def)
  have s2: "foldl (step sample_env) init [Call 0 short_link no_options, Resume 0 0 Tick] =
      init\<lparr>promises := [Pending AwaitRedirect short_link no_options],
        invoked := [(short_link, Extractor), (short_link, Redirect)],
        inProgress := (inProgress init)(short_link \<mapsto> 0)\<rparr>"
    by (simp add: s1 resume_def start_def)
  have a: "\<not> cache_has 1 short_link (cache (foldl (step sample_env) (run sample_env []) [Call 0 short_link no_options, Resume 0 0 Tick]))"
    unfolding r s2 by (simp add: init_miss)
  have b: "outcome_of (foldl (step sample_env) (run sample_env []) [Call 0 short_link no_options, Resume 0 0 Tick])
        (fst (processLink sample_env 0 short_link no_options (run sample_env []))) = None"
    unfolding r s2 by (simp add: s1)
  have i: "\<not> cache_has 0 short_link (cache (run sample_env []))" "inProgress (run sample_env []) short_link = None"
    unfolding r by (rule init_miss)+
  show ?thesis
    using concurrent_call_attaches [OF h i a b, of no_options] h i a b
    by (simp add: r s1)
qed

text \<open>
  C3, as the specification states it, fails: \<open>processLink\<close> tests \<open>red && red.bypassed\<close>,
  the truthiness of the field, not that it is non-null. When the request is not
  redirected and the body is \<open>{"url":""}\<close>, Redirect-Follow gives a result whose
  \<open>bypassed\<close> is the empty string, which is not \<open>null\<close>; the resolution does not stop
  there, caches nothing, and goes on to the Render Strategy.
\<close>

theorem empty_string_does_not_stop:
  "bypassed (tryFollowRedirect sample_env short_link (redirect_gives sample_outs)) = JStr []
   \<and> JStr [] \<noteq> JNull
   \<and> invoked (snd (resolve sample_env 0 short_link no_options sample_outs init))
       = [(short_link, Extractor), (short_link, Redirect), (short_link, Render)]
   \<and> cache (snd (resolve sample_env 0 short_link no_options sample_outs init)) = []"
proof -
  have red: "tryFollowRedirect sample_env short_link (redirect_gives sample_outs) =
      empty_result\<lparr>bypassed := JStr [], method_name := Some ''json-target'', raw := Some (take 2000 (stringify empty_url_body))\<rparr>"
    by (simp add: tryFollowRedirect_def sample_env_def sample_outs_def redirect_keys_def)
       (simp add: empty_url_body_def short_link_def)
  have res: "resolve sample_env 0 short_link no_options sample_outs init =
     (Some (Inr (chain_result sample_env short_link no_options sample_outs)),
      init\<lparr>cache := chain_cache sample_env 0 short_link no_options sample_outs (cache init),
        promises := promises init @ [Fulfilled (chain_result sample_env short_link no_options sample_outs)],
        invoked := invoked init @ map (Pair short_link)
           (upto_first (succeeds sample_env short_link no_options sample_outs) (chain sample_env))\<rparr>)"
    by (rule resolve_chain [OF _ init_miss dx_short]) (simp add: short_link_def)
  have en: "\<not> ENABLE_EXTERNAL_APIS sample_env" "render_gives sample_outs = failed ''browser unavailable''"
    by (simp_all add: sample_env_def sample_outs_def)
  show ?thesis unfolding res
    by (simp add: chain_cache_def chain_def succeeds_def dx_short red en failed_def empty_result_def init_def)
qed

text \<open>
  C3, amended. For a link that misses the cache with no in-flight entry, and whose pattern
  extractor does not throw, \<open>resolve\<close> runs the strategies in the order Pattern Extractor,
  Redirect-Follow, the two remote resolvers if they are enabled, Render Strategy, up to
  and including the first whose result has a truthy (non-null and non-empty)
  \<open>bypassed\<close> field; it writes that result to the cache and returns it, with
  \<open>source\<close> set for the first two strategies; when no strategy succeeds it returns the
  fixed failure and leaves the cache as it was.
\<close>

theorem chain_stops_at_first_truthy:
  assumes "link \<noteq> []" "\<not> cache_has now link (cache s)" "inProgress s link = None"
    and "domainExtractor env link = Inr ext"
  shows "fst (resolve env now link opts outs s) = Some (Inr (chain_result env link opts outs))
       \<and> invoked (snd (resolve env now link opts outs s))
           = invoked s @ map (Pair link) (upto_first (succeeds env link opts outs) (chain env))
       \<and> cache (snd (resolve env now link opts outs s)) = chain_cache env now link opts outs (cache s)"
  by (simp add: resolve_chain [OF assms])

theorem chain_stops_at_first_truthy_witness:
  "short_link \<noteq> [] \<and> \<not> cache_has 0 short_link (cache init) \<and> inProgress init short_link = None
   \<and> domainExtractor sample_env short_link = Inr None
   \<and> fst (resolve sample_env 0 short_link no_options sample_outs init)
       = Some (Inr (failed ''Link not supported or API is down''))
   \<and> invoked (snd (resolve sample_env 0 short_link no_options sample_outs init))
       = [(short_link, Extractor), (short_link, Redirect), (short_link, Render)]
   \<and> cache (snd (resolve sample_env 0 short_link no_options sample_outs init)) = []"
proof -
  have h: "short_link \<noteq> []" by (simp add: short_link_def)
  have c: "chain sample_env = [Extractor, Redirect, Render]"
    by (simp add: chain_def sample_env_def)
  have u: "upto_first (succeeds sample_env short_link no_options sample_outs) (chain sample_env)
      = [Extractor, Redirect, Render]"
    using sample_exhausts unfolding c by (simp split: if_splits)
  have cr: "chain_result sample_env short_link no_options sample_outs = failed ''Link not supported or API is down''"
    by (simp add: chain_result_def sample_exhausts exhausted_def)
  have cc: "chain_cache sample_env 0 short_link no_options sample_outs (cache init) = []"
    by (simp add: chain_cache_def sample_exhausts init_def)
  have i: "invoked init = []" by (simp add: init_def)
  show ?thesis
    using chain_stops_at_first_truthy [OF h init_miss dx_short, of 0 no_options sample_outs]
    by (simp add: h init_miss dx_short cr cc u i)
qed

text \<open>
  C4. After any schedule, every result in the cache has a non-null \<open>bypassed\<close> field. And
  when a resolution starts and every strategy exhausts, it returns the failure
  \<open>"Link not supported or API is down"\<close> and leaves the cache as it was, so a later
  resolution of the same link runs the chain again from the pattern extractor on.
\<close>

theorem failures_are_not_cached:
  assumes "link \<noteq> []" "\<not> cache_has now link (cache s)" "inProgress s link = None"
    and "domainExtractor env link = Inr ext"
    and "find (succeeds env link opts outs) (chain env) = None"
    and "now \<le> now'"
  shows "list_all (\<lambda>e. bypassed (fst (snd e)) \<noteq> JNull) (cache (run env evs))
       \<and> fst (resolve env now link opts outs s) = Some (Inr (failed ''Link not supported or API is down''))
       \<and> cache (snd (resolve env now link opts outs s)) = cache s
       \<and> invoked (snd (resolve env now' link opts' outs' (snd (resolve env now link opts outs s))))
           = invoked (snd (resolve env now link opts outs s))
             @ map (Pair link) (upto_first (succeeds env link opts' outs') (chain env))"
proof -
  have inv: "list_all (\<lambda>e. bypassed (fst (snd e)) \<noteq> JNull) (cache (run env evs))"
    using cache_ok_run [of env evs] by (auto simp: cache_ok_def list_all_iff)
  have r: "resolve env now link opts outs s =
     (Some (Inr exhausted),
      s\<lparr>cache := cache s,
        promises := promises s @ [Fulfilled exhausted],
        invoked := invoked s @ map (Pair link) (upto_first (succeeds env link opts outs) (chain env))\<rparr>)"
    using resolve_chain [OF assms(1-4), of opts outs] assms(5)
    by (simp add: chain_result_def chain_cache_def)
  have miss: "\<not> cache_has now' link (cache s)"
    using assms(2,6) by (rule cache_has_later)
  show ?thesis
    unfolding r using inv assms(3) miss
    by (simp add: exhausted_def resolve_chain [OF assms(1) _ _ assms(4)])
qed

theorem failures_are_not_cached_witness:
  "short_link \<noteq> [] \<and> \<not> cache_has 0 short_link (cache init) \<and> inProgress init short_link = None
   \<and> domainExtractor sample_env short_link = Inr None
   \<and> find (succeeds sample_env short_link no_options sample_outs) (chain sample_env) = None
   \<and> (0::nat) \<le> 1
   \<and> list_all (\<lambda>e. bypassed (fst (snd e)) \<noteq> JNull) (cache (run sample_env []))
   \<and> fst (resolve sample_env 0 short_link no_options sample_outs init)
        = Some (Inr (failed ''Link not supported or API is down''))
   \<and> cache (snd (resolve sample_env 0 short_link no_options sample_outs init)) = cache init
   \<and> invoked (snd (resolve sample_env 1 short_link no_options sample_outs
                      (snd (resolve sample_env 0 short_link no_options sample_outs init))))
        = invoked (snd (resolve sample_env 0 short_link no_options sample_outs init))
          @ map (Pair short_link) (upto_first (succeeds sample_env short_link no_options sample_outs) (chain sample_env))"
proof -
  have h: "short_link \<noteq> []" by (simp add: short_link_def)
  have t: "(0::nat) \<le> 1" by simp
  show ?thesis
    using failures_are_not_cached [OF h init_miss dx_short sample_exhausts t, of "[]" no_options sample_outs]
    by (simp add: h init_miss dx_short sample_exhausts)
qed

text \<open>
  C5. Whenever a step of a pending resolution settles its promise, by a success, by the
  failure result, or by the exception of the pattern extractor, the in-flight
  registration of its link is gone after the step.
\<close>

theorem completion_removes_registration:
  assumes "p < length (promises s)" "promises s ! p = Pending stg link opts"
    and "outcome_of (resume env now p ev s) (Later p) \<noteq> None"
  shows "inProgress (resume env now p ev s) link = None"
  using assms
  unfolding resume_pending [OF assms(1,2)]
  by (cases "(env, now, p, link, opts, stg, ev, s)" rule: continue.cases)
     (auto simp: succeed_def settle_def start_def Let_def split: option.splits if_splits)

theorem completion_removes_registration_witness:
  "(0::nat) < length (promises (snd (processLink sample_env 0 delta_link no_options init)))
   \<and> promises (snd (processLink sample_env 0 delta_link no_options init)) ! 0
        = Pending (AwaitExtractor (Inl URIError)) delta_link no_options
   \<and> inProgress (snd (processLink sample_env 0 delta_link no_options init)) delta_link = Some 0
   \<and> outcome_of (resume sample_env 0 0 Tick (snd (processLink sample_env 0 delta_link no_options init))) (Later 0)
        = Some (Inl URIError)
   \<and> inProgress (resume sample_env 0 0 Tick (snd (processLink sample_env 0 delta_link no_options init))) delta_link = None"
proof -
  have h: "delta_link \<noteq> []" by (simp add: delta_link_def)
  have s: "processLink sample_env 0 delta_link no_options init =
     (Later (length (promises init)),
      init\<lparr>promises := promises init @ [Pending (AwaitExtractor (domainExtractor sample_env delta_link)) delta_link no_options],
        invoked := invoked init @ [(delta_link, Extractor)],
        inProgress := (inProgress init)(delta_link \<mapsto> length (promises init))\<rparr>)"
    by (rule processLink_miss [OF h init_miss])
  have pi: "promises init = []" by (simp add: init_def)
  have a: "(0::nat) < length (promises (snd (processLink sample_env 0 delta_link no_options init)))"
    by (simp add: s)
  have b: "promises (snd (processLink sample_env 0 delta_link no_options init)) ! 0
        = Pending (AwaitExtractor (Inl URIError)) delta_link no_options"
    by (simp add: s dx_delta pi)
  have c: "outcome_of (resume sample_env 0 0 Tick (snd (processLink sample_env 0 delta_link no_options init))) (Later 0)
        = Some (Inl URIError)"
    unfolding resume_pending [OF a b] using a by (simp add: settle_def)
  have d: "outcome_of (resume sample_env 0 0 Tick (snd (processLink sample_env 0 delta_link no_options init))) (Later 0)
        \<noteq> None"
    unfolding c by simp
  have e: "inProgress (snd (processLink sample_env 0 delta_link no_options init)) delta_link = Some 0"
    by (simp add: s pi)
  show ?thesis
    using completion_removes_registration [OF a b d] a b c e by simp
qed

text \<open>
  C6. A fault thrown in the pattern extractor escapes \<open>processLink\<close>. \<open>domainExtractor\<close> calls
  \<open>decodeURIComponent\<close> on the captured \<open>URL\<close> parameter outside any \<open>try\<close>, and the
  \<open>try\<close> of \<open>processLink\<close> has a \<open>finally\<close> and no \<open>catch\<close>, unlike the blocks around
  the other strategies. For the link \<open>https://deltaios-executor.com/?URL=%\<close> the promise of
  \<open>processLink\<close> is rejected with \<open>URIError\<close>.
\<close>

theorem extractor_fault_escapes:
  "fst (resolve sample_env 0 delta_link no_options sample_outs init) = Some (Inl URIError)"
proof -
  have "delta_link \<noteq> []" by (simp add: delta_link_def)
  then show ?thesis
    by (simp add: resolve_fault [OF _ init_miss dx_delta])
qed

text \<open>
  C7, as the specification states it, fails: the first call returns the strategy's result
  with \<open>source\<close> added, but caches it without \<open>source\<close>. For the link
  \<open>https://pastebin.com/AbCd1234\<close> the first result has \<open>source = "extractor"\<close> and the
  second has no \<open>source\<close>, so the second is not the first with \<open>fromCache = true\<close>.
\<close>

theorem cached_result_lacks_source:
  "fst (resolve sample_env 0 pastebin_link no_options sample_outs init)
     = Some (Inr \<lparr>bypassed = JStr ''https://pastebin.com/raw/AbCd1234'', method_name = Some ''pastebin-raw'',
                  raw = None, error = None, source = Some ''extractor'', fromCache = None\<rparr>)
   \<and> fst (processLink sample_env 1 pastebin_link no_options
            (snd (resolve sample_env 0 pastebin_link no_options sample_outs init)))
     = Now \<lparr>bypassed = JStr ''https://pastebin.com/raw/AbCd1234'', method_name = Some ''pastebin-raw'',
            raw = None, error = None, source = None, fromCache = Some True\<rparr>
   \<and> \<lparr>bypassed = JStr ''https://pastebin.com/raw/AbCd1234'', method_name = Some ''pastebin-raw'',
            raw = None, error = None, source = None, fromCache = Some True\<rparr>
     \<noteq> \<lparr>bypassed = JStr ''https://pastebin.com/raw/AbCd1234'', method_name = Some ''pastebin-raw'',
                  raw = None, error = None, source = Some ''extractor'', fromCache = None\<rparr>\<lparr>fromCache := Some True\<rparr>"
proof -
  have res: "resolve sample_env 0 pastebin_link no_options sample_outs init =
     (Some (Inr (chain_result sample_env pastebin_link no_options sample_outs)),
      init\<lparr>cache := chain_cache sample_env 0 pastebin_link no_options sample_outs (cache init),
        promises := promises init @ [Fulfilled (chain_result sample_env pastebin_link no_options sample_outs)],
        invoked := invoked init @ map (Pair pastebin_link)
           (upto_first (succeeds sample_env pastebin_link no_options sample_outs) (chain sample_env))\<rparr>)"
    by (rule resolve_chain [OF _ init_miss dx_pastebin]) (simp add: pastebin_link_def)
  show ?thesis unfolding res
    by (simp add: chain_result_def chain_cache_def chain_def succeeds_def dx_pastebin empty_result_def
          processLink_def cache_has_def cache_lookup_def cache_get_def cache_set_def init_def spread_def
          max_entries_def ttl_def)
       (simp add: pastebin_link_def)
qed

text \<open>
  C7, amended. When a resolution that started succeeded through strategy \<open>st\<close> with result
  \<open>r\<close>, and the entry has not expired at the second call, the first call returned \<open>r\<close>
  with the \<open>source\<close> annotation of \<open>st\<close>, and the second call returns \<open>r\<close> itself, the
  cached result without that annotation, with \<open>fromCache = true\<close>; it leaves the whole
  state as it was: no strategy is invoked and nothing is registered.
\<close>

theorem cache_hit_returns_cached:
  assumes "link \<noteq> []" "\<not> cache_has now link (cache s)" "inProgress s link = None"
    and "domainExtractor env link = Inr ext"
    and "find (succeeds env link opts outs) (chain env) = Some st"
    and "cache_has now' link (cache (snd (resolve env now link opts outs s)))"
  shows "\<exists>r. strategy_result env link opts outs st = Some r
           \<and> fst (resolve env now link opts outs s) = Some (Inr (annotate st r))
           \<and> processLink env now' link opts' (snd (resolve env now link opts outs s))
               = (Now (r\<lparr>fromCache := Some True\<rparr>), snd (resolve env now link opts outs s))"
proof -
  obtain r where r: "strategy_result env link opts outs st = Some r" "truthy (bypassed r)"
    using assms(5) by (rule find_succeeds)
  have res: "resolve env now link opts outs s =
     (Some (Inr (annotate st r)),
      s\<lparr>cache := cache_set now link r (cache s),
        promises := promises s @ [Fulfilled (annotate st r)],
        invoked := invoked s @ map (Pair link) (upto_first (succeeds env link opts outs) (chain env))\<rparr>)"
    using resolve_chain [OF assms(1-4), of opts outs] assms(5) r
    by (simp add: chain_result_def chain_cache_def)
  have hit: "cache_has now' link (cache_set now link r (cache s))"
    using assms(6) unfolding res by simp
  have "processLink env now' link opts' (snd (resolve env now link opts outs s))
      = (Now (r\<lparr>fromCache := Some True\<rparr>), snd (resolve env now link opts outs s))"
    unfolding res using assms(1) hit
    by (simp add: processLink_def cache_get_front [OF hit] spread_def)
  then show ?thesis using r res by simp
qed

theorem cache_hit_returns_cached_witness:
  "pastebin_link \<noteq> [] \<and> \<not> cache_has 0 pastebin_link (cache init) \<and> inProgress init pastebin_link = None
   \<and> find (succeeds sample_env pastebin_link no_options sample_outs) (chain sample_env) = Some Extractor
   \<and> cache_has 1 pastebin_link (cache (snd (resolve sample_env 0 pastebin_link no_options sample_outs init)))
   \<and> (\<exists>r. strategy_result sample_env pastebin_link no_options sample_outs Extractor = Some r
           \<and> fst (resolve sample_env 0 pastebin_link no_options sample_outs init) = Some (Inr (annotate Extractor r))
           \<and> processLink sample_env 1 pastebin_link no_options (snd (resolve sample_env 0 pastebin_link no_options sample_outs init))
               = (Now (r\<lparr>fromCache := Some True\<rparr>), snd (resolve sample_env 0 pastebin_link no_options sample_outs init)))"
proof -
  have h: "pastebin_link \<noteq> []" by (simp add: pastebin_link_def)
  have f: "find (succeeds sample_env pastebin_link no_options sample_outs) (chain sample_env) = Some Extractor"
    by (simp add: chain_def succeeds_def dx_pastebin empty_result_def)
  have res: "resolve sample_env 0 pastebin_link no_options sample_outs init =
     (Some (Inr (chain_result sample_env pastebin_link no_options sample_outs)),
      init\<lparr>cache := chain_cache sample_env 0 pastebin_link no_options sample_outs (cache init),
        promises := promises init @ [Fulfilled (chain_result sample_env pastebin_link no_options sample_outs)],
        invoked := invoked init @ map (Pair pastebin_link)
           (upto_first (succeeds sample_env pastebin_link no_options sample_outs) (chain sample_env))\<rparr>)"
    by (rule resolve_chain [OF h init_miss dx_pastebin])
  have c: "cache_has 1 pastebin_link (cache (snd (resolve sample_env 0 pastebin_link no_options sample_outs init)))"
    unfolding res
    by (simp add: chain_cache_def f dx_pastebin cache_has_def cache_lookup_def cache_set_def max_entries_def ttl_def)
  show ?thesis
    using cache_hit_returns_cached [OF h init_miss dx_pastebin f c, of no_options] h init_miss f c
    by simp
qed

end
